theory Spec2Isabelle
  imports Complex_Main
begin

section \<open>The chunked particle store of \<open>parcels/particleset.py\<close>\<close>

text \<open>
  A shallow embedding of class \<open>ParticleSet\<close>. The store is the pair of Python lists
  \<open>_plist\<close> (one numpy array of particles per bracket) and \<open>_pid_mapping_bounds\<close>
  (one tuple \<open>(min_id, max_id, size_bracket)\<close> per bracket), with the instance attribute
  \<open>nlist_limit\<close>. The model is the Scipy mode of the class (\<open>ptype.uses_jit\<close> false), so
  the mirror list \<open>_plist_c\<close> of C records is absent, and the run without MPI.
  Python exceptions are values of \<open>error\<close>; a function that can raise returns
  \<open>error + 'a\<close> with \<open>Inl\<close> the exception.
\<close>

subsection \<open>Data\<close>

datatype error =
  IndexError | ValueError | AttributeError | AssertionError | RuntimeError

text \<open>
  A particle record: its identity \<open>id\<close>, its position (here one field), its \<open>time\<close>
  and its step \<open>dt\<close>. Python floats are modelled as reals.
\<close>

record particle =
  pid :: int
  lon :: real
  ptime :: real
  pdt :: real

type_synonym bracket_info = "int \<times> int \<times> nat"

definition min_id :: "bracket_info \<Rightarrow> int" where
  "min_id b = fst b"

definition max_id :: "bracket_info \<Rightarrow> int" where
  "max_id b = fst (snd b)"

definition size_bracket :: "bracket_info \<Rightarrow> nat" where
  "size_bracket b = snd (snd b)"

record pset =
  plist :: "particle list list"
  pid_mapping_bounds :: "bracket_info list"
  nlist_limit :: nat

text \<open>\<open>np.iinfo(np.int32).max\<close> and \<open>np.iinfo(np.int32).min\<close>.\<close>

definition int32_max :: int where
  "int32_max = 2147483647"

definition int32_min :: int where
  "int32_min = - 2147483648"

subsection \<open>Errors as values\<close>

definition bind_err :: "error + 'a \<Rightarrow> ('a \<Rightarrow> error + 'b) \<Rightarrow> error + 'b" where
  "bind_err m f = (case m of Inl e \<Rightarrow> Inl e | Inr x \<Rightarrow> f x)"

text \<open>Indexing a Python list with a non-negative index.\<close>

definition list_get :: "'a list \<Rightarrow> nat \<Rightarrow> error + 'a" where
  "list_get xs i = (if i < length xs then Inr (xs ! i) else Inl IndexError)"

text \<open>
  Indexing a one-dimensional numpy array with an integer: a negative index counts from
  the end, an index outside \<open>[-n, n)\<close> raises \<open>IndexError\<close>.
\<close>

definition np_wrap :: "nat \<Rightarrow> int \<Rightarrow> nat" where
  "np_wrap n k = nat (if k < 0 then k + int n else k)"

definition np_in_range :: "nat \<Rightarrow> int \<Rightarrow> bool" where
  "np_in_range n k = (- int n \<le> k \<and> k < int n)"

definition np_index :: "'a list \<Rightarrow> int \<Rightarrow> error + 'a" where
  "np_index xs k =
     (if np_in_range (length xs) k then Inr (xs ! np_wrap (length xs) k)
      else Inl IndexError)"

subsection \<open>\<open>size\<close>, \<open>particles\<close>\<close>

text \<open>Property \<open>size\<close>: the sum of the cached bracket sizes.\<close>

definition pset_size :: "pset \<Rightarrow> nat" where
  "pset_size s = sum_list (map size_bracket (pid_mapping_bounds s))"

text \<open>
  Property \<open>particles\<close>: \<open>None\<close> without brackets; else \<open>result\<close> starts as bracket 0
  and, when there is more than one bracket, every bracket from index 0 on is
  concatenated to it.
\<close>

definition particles :: "pset \<Rightarrow> particle list option" where
  "particles s =
     (if length (plist s) = 0 then None
      else if length (plist s) > 1
        then Some (foldl (\<lambda>result bracket. result @ bracket) (plist s ! 0) (plist s))
        else Some (plist s ! 0))"

subsection \<open>\<open>get_list_array_index\<close> and \<open>__getitem__\<close>\<close>

text \<open>
  The loop of the integer branch of \<open>get_list_array_index\<close> (the same loop stands in
  \<open>__getitem__\<close>):
  \<^verbatim>\<open>
    while pdata >= end_index:
        start_index = end_index
        end_index = start_index+self._pid_mapping_bounds[bracket_index][2]
        bracket_index += 1
  \<close>
  The tuple is read at \<open>bracket_index\<close> before the increment; reading past the end of
  the list raises \<open>IndexError\<close>.
\<close>

function index_loop ::
  "bracket_info list \<Rightarrow> int \<Rightarrow> nat \<Rightarrow> int \<Rightarrow> int \<Rightarrow> error + (nat \<times> int)" where
  "index_loop bounds pdata bracket_index start_index end_index =
     (if pdata \<ge> end_index then
        (if bracket_index < length bounds then
           index_loop bounds pdata (bracket_index + 1) end_index
             (end_index + int (size_bracket (bounds ! bracket_index)))
         else Inl IndexError)
      else Inr (bracket_index, pdata - start_index))"
  by pat_completeness auto
termination
  by (relation "measure (\<lambda>(bounds, pdata, bracket_index, start_index, end_index).
        length bounds - bracket_index)") auto

declare index_loop.simps [simp del]

definition global_index :: "pset \<Rightarrow> int \<Rightarrow> error + (nat \<times> int)" where
  "global_index s pdata =
     bind_err (list_get (pid_mapping_bounds s) 0)
       (\<lambda>info. index_loop (pid_mapping_bounds s) pdata 0 0 (int (size_bracket info)))"

text \<open>
  The particle branch of \<open>get_list_array_index\<close>. The first loop looks for a bracket
  whose range admits the identity; after each increment it reads
  \<open>pid_mapping_bounds[bracket_index]\<close>, which raises past the end. The second loop
  scans that one bracket.
\<close>

function bracket_loop :: "pset \<Rightarrow> int \<Rightarrow> nat \<Rightarrow> bracket_info \<Rightarrow> error + nat" where
  "bracket_loop s i bracket_index info =
     (if bracket_index < length (plist s) \<and> (i < min_id info \<or> i > max_id info) then
        (if bracket_index + 1 < length (pid_mapping_bounds s) then
           bracket_loop s i (bracket_index + 1) (pid_mapping_bounds s ! (bracket_index + 1))
         else Inl IndexError)
      else Inr bracket_index)"
  by pat_completeness auto
termination
  by (relation "measure (\<lambda>(s, i, bracket_index, info). length (plist s) - bracket_index)") auto

declare bracket_loop.simps [simp del]

function slot_loop :: "particle list \<Rightarrow> int \<Rightarrow> nat \<Rightarrow> nat" where
  "slot_loop bracket i slot_index =
     (if slot_index < length bracket \<and> pid (bracket ! slot_index) \<noteq> i
      then slot_loop bracket i (slot_index + 1) else slot_index)"
  by pat_completeness auto
termination
  by (relation "measure (\<lambda>(bracket, i, slot_index). length bracket - slot_index)") auto

declare slot_loop.simps [simp del]

text \<open>
  What a lookup returns: the tuple \<open>(bracket_index, slot_index)\<close>, or the integer
  \<open>-1\<close> (after \<open>logger.warn_once\<close>).
\<close>

datatype lookup = Minus_One | Located nat int

datatype pdata = Global int | Particle particle

definition get_list_array_index :: "pset \<Rightarrow> pdata \<Rightarrow> error + lookup" where
  "get_list_array_index s pd =
     (case pd of
        Global g \<Rightarrow>
          bind_err (global_index s g) (\<lambda>(bracket_index, slot_index).
            Inr (Located bracket_index slot_index))
      | Particle p \<Rightarrow>
          bind_err (list_get (pid_mapping_bounds s) 0) (\<lambda>info.
          bind_err (bracket_loop s (pid p) 0 info) (\<lambda>bracket_index.
            if bracket_index \<ge> length (plist s) then Inr Minus_One
            else let slot_index = slot_loop (plist s ! bracket_index) (pid p) 0 in
              if slot_index \<ge> length (plist s ! bracket_index) then Inr Minus_One
              else Inr (Located bracket_index (int slot_index)))))"

text \<open>
  \<open>get_list_array_index_by_PID\<close>: the list comprehension over all brackets and slots,
  in order; \<open>-1\<close> when it is empty and when it has more than one element.
\<close>

definition located_particle :: "pset \<Rightarrow> int \<Rightarrow> (particle \<times> nat \<times> nat) list" where
  "located_particle s i =
     concat (map (\<lambda>(bracket_index, sublist).
         map (\<lambda>(slot_index, p). (p, bracket_index, slot_index))
           (filter (\<lambda>(slot_index, p). pid p = i) (enumerate 0 sublist)))
       (enumerate 0 (plist s)))"

definition get_list_array_index_by_PID :: "pset \<Rightarrow> int \<Rightarrow> lookup" where
  "get_list_array_index_by_PID s i =
     (let located = located_particle s i in
      if length located < 1 then Minus_One
      else if length located > 1 then Minus_One
      else (case hd located of (p, bracket_index, slot_index) \<Rightarrow>
              Located bracket_index (int slot_index)))"

text \<open>\<open>__getitem__\<close>: the loop, then \<open>self._plist[bracket_index][slot_index]\<close>.\<close>

definition getitem :: "pset \<Rightarrow> int \<Rightarrow> error + particle" where
  "getitem s key =
     bind_err (global_index s key) (\<lambda>(bracket_index, slot_index).
     bind_err (list_get (plist s) bracket_index) (\<lambda>bracket.
       np_index bracket slot_index))"

subsection \<open>numpy on one-dimensional arrays\<close>

text \<open>
  What \<open>_remove_\<close> is given as \<open>local_indices\<close>: one integer (\<open>Slot\<close>), a Python list
  of integers (\<open>Slots\<close>) or a numpy array of integers (\<open>Array\<close>); \<open>np.array\<close> turns the
  last two into an index array. What it returns: one record (integer index) or an array
  of records (index array).
\<close>

datatype local_indices = Slot int | Slots "int list" | Array "int list"

datatype removed = Record particle | Records "particle list"

text \<open>
  \<open>a[local_indices]\<close>. With an index array the records come in the order of the indices;
  any index outside \<open>[-n, n)\<close> raises \<open>IndexError\<close>. \<open>np.array([])\<close> of the empty Python
  list has dtype float64, and an array that is not of integer type is refused as an index
  with \<open>IndexError\<close>; an empty array of integers selects no record and gives an empty
  array.
\<close>

definition np_take :: "particle list \<Rightarrow> local_indices \<Rightarrow> error + removed" where
  "np_take a li =
     (case li of
        Slot k \<Rightarrow> bind_err (np_index a k) (\<lambda>p. Inr (Record p))
      | Slots ks \<Rightarrow>
          if ks = [] then Inl IndexError
          else if list_all (np_in_range (length a)) ks
            then Inr (Records (map (\<lambda>k. a ! np_wrap (length a) k) ks))
            else Inl IndexError
      | Array ks \<Rightarrow>
          if list_all (np_in_range (length a)) ks
            then Inr (Records (map (\<lambda>k. a ! np_wrap (length a) k) ks))
            else Inl IndexError)"

text \<open>
  \<open>np.delete(a, local_indices)\<close>, called after \<open>a[local_indices]\<close> has succeeded: the
  array without the positions named (a position named twice is deleted once).
\<close>

definition positions :: "nat \<Rightarrow> local_indices \<Rightarrow> nat list" where
  "positions n li =
     (case li of
        Slot k \<Rightarrow> [np_wrap n k]
      | Slots ks \<Rightarrow> map (np_wrap n) ks
      | Array ks \<Rightarrow> map (np_wrap n) ks)"

definition np_delete :: "'a list \<Rightarrow> local_indices \<Rightarrow> 'a list" where
  "np_delete a li =
     map snd (filter (\<lambda>(i, x). i \<notin> set (positions (length a) li)) (enumerate 0 a))"

text \<open>\<open>np.min\<close> and \<open>np.max\<close> raise \<open>ValueError\<close> on an empty array.\<close>

definition np_min :: "int list \<Rightarrow> error + int" where
  "np_min ids = (case ids of [] \<Rightarrow> Inl ValueError | x # xs \<Rightarrow> Inr (fold min xs x))"

definition np_max :: "int list \<Rightarrow> error + int" where
  "np_max ids = (case ids of [] \<Rightarrow> Inl ValueError | x # xs \<Rightarrow> Inr (fold max xs x))"

text \<open>The tuple \<open>(np.min(local_ids), np.max(local_ids), local_ids.shape[0])\<close>.\<close>

definition summary :: "particle list \<Rightarrow> error + bracket_info" where
  "summary bracket =
     (let local_ids = map pid bracket in
      bind_err (np_min local_ids) (\<lambda>lo.
      bind_err (np_max local_ids) (\<lambda>hi. Inr (lo, hi, length local_ids))))"

text \<open>
  \<open>np.concatenate((result, r), axis=0)\<close>: a single record is a zero-dimensional
  operand, which is refused with \<open>ValueError\<close>.
\<close>

definition np_concatenate :: "removed \<Rightarrow> removed \<Rightarrow> error + removed" where
  "np_concatenate x y =
     (case (x, y) of
        (Records xs, Records ys) \<Rightarrow> Inr (Records (xs @ ys))
      | _ \<Rightarrow> Inl ValueError)"

text \<open>Python's \<open>del xs[i]\<close> and \<open>xs[i] = v\<close>.\<close>

definition list_del :: "'a list \<Rightarrow> nat \<Rightarrow> error + 'a list" where
  "list_del xs i = (if i < length xs then Inr (take i xs @ drop (Suc i) xs) else Inl IndexError)"

definition list_set :: "'a list \<Rightarrow> nat \<Rightarrow> 'a \<Rightarrow> error + 'a list" where
  "list_set xs i v = (if i < length xs then Inr (xs[i := v]) else Inl IndexError)"

subsection \<open>\<open>add\<close>\<close>

text \<open>Both lists of the other set are appended; no bracket is merged or split.\<close>

definition pset_add :: "pset \<Rightarrow> pset \<Rightarrow> pset" where
  "pset_add s other =
     s\<lparr>plist := plist s @ plist other,
       pid_mapping_bounds := pid_mapping_bounds s @ pid_mapping_bounds other\<rparr>"

subsection \<open>\<open>_remove_\<close>\<close>

text \<open>
  \<open>_remove_(bracket_index, local_indices)\<close>. When the bracket stays non-empty its tuple
  is recomputed. When it becomes empty and is not the only bracket, it is taken out with
  \<open>list.remove\<close>: from \<open>_plist\<close> the array just stored at \<open>bracket_index\<close> (a fresh
  object, and no other array compares equal to an empty one, so it is position
  \<open>bracket_index\<close> that goes); from \<open>_pid_mapping_bounds\<close> the first tuple equal to the
  one at \<open>bracket_index\<close>, which at that point is still the tuple the bracket had before
  the deletion. The only bracket is kept, with the tuple of an empty bracket.
\<close>

definition remove_slots :: "pset \<Rightarrow> nat \<Rightarrow> local_indices \<Rightarrow> error + (removed \<times> pset)" where
  "remove_slots s bracket_index li =
     bind_err (list_get (plist s) bracket_index) (\<lambda>bracket.
     bind_err (np_take bracket li) (\<lambda>return_p.
       let bracket' = np_delete bracket li;
           s1 = s\<lparr>plist := (plist s)[bracket_index := bracket']\<rparr>
       in
       if length bracket' > 0 then
         bind_err (summary bracket') (\<lambda>info.
         bind_err (list_set (pid_mapping_bounds s1) bracket_index info) (\<lambda>bounds.
           Inr (return_p, s1\<lparr>pid_mapping_bounds := bounds\<rparr>)))
       else if length (plist s1) > 1 then
         bind_err (list_del (plist s1) bracket_index) (\<lambda>pl.
         bind_err (list_get (pid_mapping_bounds s1) bracket_index) (\<lambda>info.
           Inr (return_p,
             s1\<lparr>plist := pl, pid_mapping_bounds := remove1 info (pid_mapping_bounds s1)\<rparr>)))
       else
         bind_err (list_set (pid_mapping_bounds s1) bracket_index (int32_max, int32_min, 0))
           (\<lambda>bounds. Inr (return_p, s1\<lparr>pid_mapping_bounds := bounds\<rparr>))))"

subsection \<open>\<open>_merge_brackets_\<close>\<close>

text \<open>
  The scan of one pass: the first two brackets whose cached size is below
  \<open>lw_bound_nlist\<close>, in list order, with the \<open>break\<close> once both are found.
\<close>

function scan_loop ::
  "pset \<Rightarrow> nat \<Rightarrow> nat \<Rightarrow> nat option \<Rightarrow> nat option \<Rightarrow> error + (nat option \<times> nat option)" where
  "scan_loop s lw bracket_index trg src =
     (if bracket_index < length (plist s) then
        (if bracket_index < length (pid_mapping_bounds s) then
           (let found =
                  (if size_bracket (pid_mapping_bounds s ! bracket_index) < lw then
                     (if trg = None then (Some bracket_index, src)
                      else if src = None then (trg, Some bracket_index)
                      else (trg, src))
                   else (trg, src))
            in if snd found \<noteq> None \<and> fst found \<noteq> None then Inr found
               else scan_loop s lw (bracket_index + 1) (fst found) (snd found))
         else Inl IndexError)
      else Inr (trg, src))"
  by pat_completeness auto
termination
  by (relation "measure (\<lambda>(s, lw, bracket_index, trg, src). length (plist s) - bracket_index)")
    auto

declare scan_loop.simps [simp del]

text \<open>
  The merge of one pass: the target becomes \<open>np.append(trg, src)\<close>, its tuple is
  recomputed from the union, and the source is deleted from both lists with \<open>del\<close>.
\<close>

definition merge_pair :: "pset \<Rightarrow> nat \<Rightarrow> nat \<Rightarrow> error + pset" where
  "merge_pair s trg_index src_index =
     bind_err (list_get (plist s) trg_index) (\<lambda>trg.
     bind_err (list_get (plist s) src_index) (\<lambda>src.
     bind_err (summary (trg @ src)) (\<lambda>info.
     bind_err (list_set (pid_mapping_bounds s) trg_index info) (\<lambda>bounds.
     bind_err (list_del ((plist s)[trg_index := trg @ src]) src_index) (\<lambda>pl.
     bind_err (list_del bounds src_index) (\<lambda>bounds'.
       Inr (s\<lparr>plist := pl, pid_mapping_bounds := bounds'\<rparr>)))))))"

definition lw_bound_nlist :: "pset \<Rightarrow> nat" where
  "lw_bound_nlist s = nlist_limit s div 2"

text \<open>The pass found a pair and merged it: the body of \<open>while nmerges > 0\<close>.\<close>

definition merge_pass :: "pset \<Rightarrow> error + pset option" where
  "merge_pass s =
     bind_err (scan_loop s (lw_bound_nlist s) 0 None None) (\<lambda>(trg, src).
       case (trg, src) of
         (Some trg_index, Some src_index) \<Rightarrow>
           bind_err (merge_pair s trg_index src_index) (\<lambda>s'. Inr (Some s'))
       | _ \<Rightarrow> Inr None)"

lemma merge_pair_shorter:
  assumes "merge_pair s trg_index src_index = Inr s'"
  shows "length (plist s') < length (plist s)"
  using assms
  by (auto simp: merge_pair_def bind_err_def list_del_def list_set_def list_get_def
      split: sum.splits if_splits)

lemma merge_pass_shorter:
  assumes "merge_pass s = Inr (Some s')"
  shows "length (plist s') < length (plist s)"
  using assms merge_pair_shorter
  by (auto simp: merge_pass_def bind_err_def split: sum.splits option.splits prod.splits)

text \<open>
  \<open>_merge_brackets_\<close>: passes are repeated as long as the last one merged a pair
  (\<open>nmerges > 0\<close>). Each merge shortens \<open>_plist\<close>, so the loop ends.
\<close>

function merge_brackets :: "pset \<Rightarrow> error + pset" where
  "merge_brackets s =
     (case merge_pass s of
        Inl e \<Rightarrow> Inl e
      | Inr None \<Rightarrow> Inr s
      | Inr (Some s') \<Rightarrow> merge_brackets s')"
  by pat_completeness auto
termination
  by (relation "measure (\<lambda>s. length (plist s))") (auto simp: merge_pass_shorter)

declare merge_brackets.simps [simp del]

subsection \<open>\<open>pop\<close> and \<open>remove\<close>\<close>

text \<open>
  The argument \<open>indices\<close>: a Python list is taken as it is for \<open>lindices\<close>, one entry per
  bracket (\<open>None\<close>, an integer, a list or an array of slot indices); a numpy array, or
  any other object (one integer), is a request by global indices.
\<close>

datatype indices = Scalar int | NdArray "int list" | PyList "local_indices option list"

text \<open>
  \<^verbatim>\<open>
    while gindex < 0:
        gindex = ncounter+gindex
  \<close>
  The loop does not end when \<open>ncounter\<close> is 0 and \<open>gindex\<close> negative: the value \<open>None\<close>.
\<close>

partial_function (option) wrap_loop :: "int \<Rightarrow> int \<Rightarrow> int option" where
  "wrap_loop ncounter gindex =
     (if gindex < 0 then wrap_loop ncounter (ncounter + gindex) else Some gindex)"

declare wrap_loop.simps [code]

text \<open>
  The loop \<open>for gindex in indices\<close>, which files each slot index under its bracket.
  \<open>lindices[bracket_index]\<close> raises \<open>IndexError\<close> past the end of \<open>lindices\<close>.
\<close>

fun index_lists ::
  "pset \<Rightarrow> int \<Rightarrow> int list \<Rightarrow> int list option list \<Rightarrow> (error + int list option list) option"
  where
  "index_lists s ncounter [] lindices = Some (Inr lindices)"
| "index_lists s ncounter (gindex # rest) lindices =
     (case wrap_loop ncounter gindex of
        None \<Rightarrow> None
      | Some g \<Rightarrow>
          (case global_index s g of
             Inl e \<Rightarrow> Some (Inl e)
           | Inr (bracket_index, slot_index) \<Rightarrow>
               if bracket_index < length lindices then
                 index_lists s ncounter rest
                   (lindices[bracket_index :=
                      Some (case lindices ! bracket_index of
                              None \<Rightarrow> [slot_index]
                            | Some l \<Rightarrow> l @ [slot_index])])
               else Some (Inl IndexError)))"

text \<open>
  The first part of \<open>pop\<close> and of \<open>remove\<close> (the same lines in both): \<open>lindices\<close> from
  \<open>indices\<close>.
\<close>

definition local_index_lists ::
  "pset \<Rightarrow> indices \<Rightarrow> (error + local_indices option list) option" where
  "local_index_lists s indices =
     (case indices of
        PyList l \<Rightarrow> Some (Inr l)
      | _ \<Rightarrow>
        (case index_lists s (int (pset_size s))
                (case indices of NdArray gs \<Rightarrow> gs | Scalar g \<Rightarrow> [g] | PyList l \<Rightarrow> [])
                (replicate (length (plist s)) None) of
           None \<Rightarrow> None
         | Some (Inl e) \<Rightarrow> Some (Inl e)
         | Some (Inr lindices) \<Rightarrow> Some (Inr (map (map_option Slots) lindices))))"

text \<open>
  The loop \<open>for bracket_index in range(len(lindices))\<close> of \<open>pop\<close>; \<open>result\<close> collects
  what \<open>_remove_\<close> returns, bracket after bracket.
\<close>

fun pop_loop ::
  "pset \<Rightarrow> nat \<Rightarrow> local_indices option list \<Rightarrow> removed option \<Rightarrow>
     error + (removed option \<times> pset)" where
  "pop_loop s bracket_index [] result = Inr (result, s)"
| "pop_loop s bracket_index (None # rest) result = pop_loop s (bracket_index + 1) rest result"
| "pop_loop s bracket_index (Some li # rest) result =
     (case remove_slots s bracket_index li of
        Inl e \<Rightarrow> Inl e
      | Inr (r, s') \<Rightarrow>
          (case result of
             None \<Rightarrow> pop_loop s' (bracket_index + 1) rest (Some r)
           | Some acc \<Rightarrow>
               (case np_concatenate acc r of
                  Inl e \<Rightarrow> Inl e
                | Inr acc' \<Rightarrow> pop_loop s' (bracket_index + 1) rest (Some acc'))))"

text \<open>
  What \<open>pop\<close> returns: \<open>None\<close>, one record (\<open>result[0]\<close> of a list of length 1), or the
  list \<open>result.tolist()\<close>. A single record has no \<open>tolist\<close>: \<open>AttributeError\<close>.
\<close>

datatype popped = Nothing | One particle | Many "particle list"

definition pop_result :: "removed option \<Rightarrow> error + popped" where
  "pop_result result =
     (case result of
        None \<Rightarrow> Inr Nothing
      | Some (Record p) \<Rightarrow> Inl AttributeError
      | Some (Records ps) \<Rightarrow> if length ps = 1 then Inr (One (ps ! 0)) else Inr (Many ps))"

definition pop :: "pset \<Rightarrow> indices \<Rightarrow> (error + (popped \<times> pset)) option" where
  "pop s indices =
     (case local_index_lists s indices of
        None \<Rightarrow> None
      | Some (Inl e) \<Rightarrow> Some (Inl e)
      | Some (Inr lindices) \<Rightarrow>
          Some (if length lindices \<noteq> length (plist s) then Inl AssertionError
                else bind_err (pop_loop s 0 lindices None) (\<lambda>(result, s1).
                     bind_err (merge_brackets s1) (\<lambda>s2.
                     bind_err (pop_result result) (\<lambda>r. Inr (r, s2))))))"

fun remove_loop :: "pset \<Rightarrow> nat \<Rightarrow> local_indices option list \<Rightarrow> error + pset" where
  "remove_loop s bracket_index [] = Inr s"
| "remove_loop s bracket_index (None # rest) = remove_loop s (bracket_index + 1) rest"
| "remove_loop s bracket_index (Some li # rest) =
     (case remove_slots s bracket_index li of
        Inl e \<Rightarrow> Inl e
      | Inr (r, s') \<Rightarrow> remove_loop s' (bracket_index + 1) rest)"

definition remove_particles :: "pset \<Rightarrow> indices \<Rightarrow> (error + pset) option" where
  "remove_particles s indices =
     (case local_index_lists s indices of
        None \<Rightarrow> None
      | Some (Inl e) \<Rightarrow> Some (Inl e)
      | Some (Inr lindices) \<Rightarrow>
          Some (if length lindices \<noteq> length (plist s) then Inl AssertionError
                else bind_err (remove_loop s 0 lindices) merge_brackets))"

subsection \<open>Construction\<close>

text \<open>
  \<open>__init__\<close> from the particles \<open>pclass(lon[i], lat[i], pid[i], ...)\<close>, in order. The
  first loop allocates the brackets (\<open>start_index\<close> equals \<open>end_index\<close> at every test of
  its condition, so one variable stands for both) with the tuple
  \<open>(int32 max, int32 min, size)\<close>; the second writes particle \<open>i\<close> to bracket
  \<open>i div nlist_limit\<close>, slot \<open>i mod nlist_limit\<close>, and widens the tuple. \<open>empty_slot\<close>
  stands for a slot of \<open>np.empty\<close> that is not written yet.
\<close>

definition empty_slot :: particle where
  "empty_slot = \<lparr>pid = 0, lon = 0, ptime = 0, pdt = 0\<rparr>"

function alloc_loop :: "nat \<Rightarrow> nat \<Rightarrow> pset \<Rightarrow> pset" where
  "alloc_loop n end_index s =
     (if end_index < n then
        alloc_loop n (min n (end_index + 4096))
          (s\<lparr>plist := plist s @ [replicate (min n (end_index + 4096) - end_index) empty_slot],
             pid_mapping_bounds := pid_mapping_bounds s @
               [(int32_max, int32_min, min n (end_index + 4096) - end_index)]\<rparr>)
      else s)"
  by pat_completeness auto
termination
  by (relation "measure (\<lambda>(n, end_index, s). n - end_index)") auto

declare alloc_loop.simps [simp del]

fun fill_loop :: "particle list \<Rightarrow> nat \<Rightarrow> pset \<Rightarrow> pset" where
  "fill_loop [] i s = s"
| "fill_loop (p # ps) i s =
     fill_loop ps (i + 1)
       (let bracket_index = i div nlist_limit s;
            slot_index = i mod nlist_limit s;
            bracket_info = pid_mapping_bounds s ! bracket_index
        in s\<lparr>plist := (plist s)[bracket_index := (plist s ! bracket_index)[slot_index := p]],
             pid_mapping_bounds := (pid_mapping_bounds s)[bracket_index :=
               (min (pid p) (min_id bracket_info), max (pid p) (max_id bracket_info),
                size_bracket bracket_info)]\<rparr>)"

definition ParticleSet :: "particle list \<Rightarrow> pset" where
  "ParticleSet ps =
     fill_loop ps 0
       (alloc_loop (length ps) 0 \<lparr>plist = [], pid_mapping_bounds = [], nlist_limit = 4096\<rparr>)"

subsection \<open>The invariant of the store\<close>

text \<open>
  Every bracket has its tuple, the cached size is the length of the array, and the cached
  identities bound the identities in the array.
\<close>

definition bracket_ok :: "particle list \<Rightarrow> bracket_info \<Rightarrow> bool" where
  "bracket_ok bracket info =
     (size_bracket info = length bracket \<and>
      list_all (\<lambda>p. min_id info \<le> pid p \<and> pid p \<le> max_id info) bracket)"

definition consistent :: "pset \<Rightarrow> bool" where
  "consistent s = list_all2 bracket_ok (plist s) (pid_mapping_bounds s)"

section \<open>Concrete stores\<close>

text \<open>A particle with identity \<open>i\<close>, at rest at the origin.\<close>

definition mk :: "int \<Rightarrow> particle" where
  "mk i = \<lparr>pid = i, lon = 0, ptime = 0, pdt = 0\<rparr>"

text \<open>Three brackets below half the limit, as repeated additions of small sets leave them.\<close>

definition three_small :: pset where
  "three_small =
     \<lparr>plist = [[mk 0, mk 1], [mk 2], [mk 3]],
      pid_mapping_bounds = [(0, 1, 2), (2, 2, 1), (3, 3, 1)], nlist_limit = 4096\<rparr>"

section \<open>Compaction\<close>

lemma merge_brackets_fixed:
  "merge_brackets s = Inr s' \<Longrightarrow> merge_pass s' = Inr None"
proof (induction s rule: merge_brackets.induct)
  case (1 s)
  show ?case
  proof (cases "merge_pass s")
    case (Inl e)
    with "1.prems" show ?thesis by (simp add: merge_brackets.simps)
  next
    case (Inr r)
    show ?thesis
    proof (cases r)
      case None
      with Inr "1.prems" show ?thesis by (simp add: merge_brackets.simps)
    next
      case (Some s1)
      with Inr "1.prems" have "merge_brackets s1 = Inr s'"
        by (simp add: merge_brackets.simps)
      with "1.IH" Inr Some show ?thesis by simp
    qed
  qed
qed

lemma merge_brackets_again:
  assumes "merge_brackets s = Inr s'"
  shows "merge_brackets s' = Inr s'"
proof -
  from assms have "merge_pass s' = Inr None" by (rule merge_brackets_fixed)
  then show ?thesis by (simp add: merge_brackets.simps)
qed

lemma merge_three_small:
  "merge_brackets three_small =
     Inr \<lparr>plist = [[mk 0, mk 1, mk 2, mk 3]], pid_mapping_bounds = [(0, 3, 4)],
          nlist_limit = 4096\<rparr>"
  by (simp add: three_small_def merge_brackets.simps merge_pass_def scan_loop.simps
      merge_pair_def bind_err_def list_get_def list_set_def list_del_def summary_def
      np_min_def np_max_def size_bracket_def lw_bound_nlist_def mk_def)

text \<open>
  Claim C6. \<open>_merge_brackets_\<close> is idempotent: for every store, running it twice in a
  row gives what running it once gives, the same brackets with the same tuples (and the
  same exception where the first run raises one). The function is total, so the run
  always ends.
\<close>

theorem merge_brackets_idempotent:
  "bind_err (merge_brackets s) merge_brackets = merge_brackets s"
proof (cases "merge_brackets s")
  case (Inl e)
  then show ?thesis by (simp add: bind_err_def)
next
  case (Inr s')
  then have "merge_brackets s' = Inr s'" by (rule merge_brackets_again)
  with Inr show ?thesis by (simp add: bind_err_def)
qed

theorem merge_brackets_idempotent_witness:
  "bind_err (merge_brackets three_small) merge_brackets =
     Inr \<lparr>plist = [[mk 0, mk 1, mk 2, mk 3]], pid_mapping_bounds = [(0, 3, 4)],
          nlist_limit = 4096\<rparr>"
  using merge_brackets_idempotent [of three_small] merge_three_small by simp

text \<open>The definitions a concrete store is evaluated with.\<close>

lemmas store_defs =
  bind_err_def list_get_def list_set_def list_del_def np_index_def np_in_range_def np_wrap_def
  np_take_def np_delete_def positions_def np_min_def np_max_def summary_def np_concatenate_def
  size_bracket_def min_id_def max_id_def int32_max_def int32_min_def pset_size_def
  global_index_def index_loop.simps pset_add_def remove_slots_def
  scan_loop.simps merge_pair_def lw_bound_nlist_def merge_pass_def merge_brackets.simps
  wrap_loop.simps local_index_lists_def pop_result_def pop_def remove_particles_def
  ParticleSet_def alloc_loop.simps empty_slot_def

definition emptied :: pset where
  "emptied =
     \<lparr>plist = [[]], pid_mapping_bounds = [(int32_max, int32_min, 0)], nlist_limit = 4096\<rparr>"

definition empty_first :: pset where
  "empty_first = pset_add emptied (ParticleSet [mk 1])"

definition one_and_three :: pset where
  "one_and_three = pset_add (ParticleSet [mk 0]) (ParticleSet [mk 1, mk 2, mk 3])"

lemma emptied_reached: "remove_particles (ParticleSet [mk 0]) (Scalar 0) = Some (Inr emptied)"
  by (simp add: emptied_def store_defs mk_def)

lemma empty_first_eq:
  "empty_first =
     \<lparr>plist = [[], [mk 1]], pid_mapping_bounds = [(int32_max, int32_min, 0), (1, 1, 1)],
      nlist_limit = 4096\<rparr>"
  by (simp add: empty_first_def emptied_def store_defs mk_def)

lemma one_and_three_eq:
  "one_and_three =
     \<lparr>plist = [[mk 0], [mk 1, mk 2, mk 3]], pid_mapping_bounds = [(0, 0, 1), (1, 3, 3)],
      nlist_limit = 4096\<rparr>"
  by (simp add: one_and_three_def store_defs mk_def)

section \<open>The property \<open>particles\<close>\<close>

lemma foldl_append_concat: "foldl (\<lambda>result bracket. result @ bracket) acc bs = acc @ concat bs"
  by (induction bs arbitrary: acc) simp_all

lemma consistent_sizes:
  assumes "list_all2 bracket_ok bs infos"
  shows "sum_list (map size_bracket infos) = length (concat bs)"
  using assms by (induction rule: list_all2_induct) (simp_all add: bracket_ok_def)

lemma consistent_size: "consistent s \<Longrightarrow> pset_size s = length (concat (plist s))"
  by (simp add: consistent_def pset_size_def consistent_sizes)

lemma consistent_nth:
  assumes "consistent s" and "b < length (plist s)"
  shows "bracket_ok (plist s ! b) (pid_mapping_bounds s ! b)"
  using assms by (simp add: consistent_def list_all2_conv_all_nth)

lemma consistent_length: "consistent s \<Longrightarrow> length (pid_mapping_bounds s) = length (plist s)"
  by (simp add: consistent_def list_all2_lengthD)

lemma particles_many:
  assumes "length (plist s) > 1"
  shows "particles s = Some (plist s ! 0 @ concat (plist s))"
  using assms by (auto simp: particles_def foldl_append_concat)

lemma particles_one:
  assumes "length (plist s) = 1"
  shows "particles s = Some (concat (plist s))"
proof -
  from assms obtain b where "plist s = [b]" by (cases "plist s") auto
  then show ?thesis by (simp add: particles_def)
qed

text \<open>
  Claim C8, as the code has it. Without brackets \<open>particles\<close> is \<open>None\<close>; with one bracket
  it is that bracket, the live records in global-index order; with more than one bracket
  it is bracket 0 followed by the concatenation of all brackets, so the records of
  bracket 0 stand twice and, in a consistent store, its length is \<open>size\<close> plus the cached
  size of bracket 0. It is exactly the live records only with one bracket, or with more
  brackets when bracket 0 is empty.
\<close>

theorem particles_layout:
  "(plist s = [] \<longrightarrow> particles s = None)
   \<and> (length (plist s) = 1 \<longrightarrow> particles s = Some (concat (plist s)))
   \<and> (length (plist s) > 1 \<longrightarrow> particles s = Some (plist s ! 0 @ concat (plist s)))
   \<and> (length (plist s) > 1 \<and> consistent s \<longrightarrow>
        (\<exists>r. particles s = Some r \<and>
             length r = pset_size s + size_bracket (pid_mapping_bounds s ! 0)))
   \<and> (particles s = Some (concat (plist s))
        \<longleftrightarrow> length (plist s) = 1 \<or> (length (plist s) > 1 \<and> plist s ! 0 = []))"
proof (intro conjI impI)
  assume "plist s = []"
  then show "particles s = None" by (simp add: particles_def)
next
  assume "length (plist s) = 1"
  then show "particles s = Some (concat (plist s))" by (rule particles_one)
next
  assume "length (plist s) > 1"
  then show "particles s = Some (plist s ! 0 @ concat (plist s))" by (rule particles_many)
next
  assume a: "length (plist s) > 1 \<and> consistent s"
  then have "consistent s" and "0 < length (plist s)" by auto
  then have "bracket_ok (plist s ! 0) (pid_mapping_bounds s ! 0)"
    by (rule consistent_nth)
  then have "size_bracket (pid_mapping_bounds s ! 0) = length (plist s ! 0)"
    by (simp add: bracket_ok_def)
  with a show "\<exists>r. particles s = Some r \<and>
      length r = pset_size s + size_bracket (pid_mapping_bounds s ! 0)"
    by (simp add: particles_many consistent_size)
next
  show "particles s = Some (concat (plist s))
      \<longleftrightarrow> length (plist s) = 1 \<or> (length (plist s) > 1 \<and> plist s ! 0 = [])"
  proof (cases "length (plist s) > 1")
    case True
    then show ?thesis by (simp add: particles_many)
  next
    case False
    show ?thesis
    proof (cases "plist s = []")
      case True
      then show ?thesis by (simp add: particles_def)
    next
      case nonempty: False
      with False have "length (plist s) = 1" by (cases "plist s") auto
      then show ?thesis by (simp add: particles_one)
    qed
  qed
qed

theorem particles_layout_witness:
  "length (plist one_and_three) > 1 \<and> consistent one_and_three
   \<and> particles one_and_three = Some [mk 0, mk 0, mk 1, mk 2, mk 3]
   \<and> pset_size one_and_three = 4
   \<and> (\<exists>r. particles one_and_three = Some r \<and> length r = 4 + 1)
   \<and> particles (ParticleSet [mk 0]) = Some [mk 0]
   \<and> particles (ParticleSet []) = None"
proof -
  have c: "consistent one_and_three"
    by (simp add: one_and_three_eq consistent_def bracket_ok_def store_defs mk_def)
  have l: "length (plist one_and_three) > 1" by (simp add: one_and_three_eq)
  have sz: "pset_size one_and_three = 4" by (simp add: one_and_three_eq store_defs)
  have one: "length (plist (ParticleSet [mk 0])) = 1" by (simp add: store_defs)
  have none: "plist (ParticleSet []) = []" by (simp add: store_defs)
  from particles_layout [of one_and_three] c l sz
  have "particles one_and_three = Some [mk 0, mk 0, mk 1, mk 2, mk 3]"
    and "\<exists>r. particles one_and_three = Some r \<and> length r = 4 + 1"
    by (simp_all add: one_and_three_eq store_defs)
  moreover from particles_layout [of "ParticleSet [mk 0]"] one
  have "particles (ParticleSet [mk 0]) = Some [mk 0]" by (simp add: store_defs)
  moreover from particles_layout [of "ParticleSet []"] none
  have "particles (ParticleSet []) = None" by simp
  ultimately show ?thesis using c l sz by simp
qed

text \<open>
  A store with two brackets whose \<open>particles\<close> is exactly its live records: the only
  particle of a set is removed, which leaves one empty bracket, and a set of one
  particle is added.
\<close>

theorem particles_empty_first_bracket:
  "remove_particles (ParticleSet [mk 0]) (Scalar 0) = Some (Inr emptied)
   \<and> empty_first = pset_add emptied (ParticleSet [mk 1])
   \<and> length (plist empty_first) = 2
   \<and> consistent empty_first
   \<and> particles empty_first = Some (concat (plist empty_first))"
  by (simp add: emptied_reached empty_first_def [symmetric])
     (simp add: empty_first_eq particles_def consistent_def bracket_ok_def store_defs mk_def)

section \<open>Negative indices\<close>

text \<open>The wraparound loop of \<open>pop\<close> and \<open>remove\<close>, and what \<open>__getitem__\<close> does instead.\<close>

lemma wrap_loop_nonneg: "0 \<le> g \<Longrightarrow> wrap_loop n g = Some g"
  by (subst wrap_loop.simps) simp

lemma wrap_loop_once:
  assumes "g < 0" and "0 \<le> n + g"
  shows "wrap_loop n g = Some (n + g)"
  using assms by (subst wrap_loop.simps) (simp add: wrap_loop_nonneg)

lemma wrap_loop_Some_zero:
  assumes "wrap_loop n g = Some y"
  shows "n = 0 \<longrightarrow> 0 \<le> g"
proof (rule wrap_loop.raw_induct [where P = "\<lambda>n g y. n = 0 \<longrightarrow> 0 \<le> g", OF _ assms])
  fix wl :: "int \<Rightarrow> int \<Rightarrow> int option" and n g y :: int
  assume IH: "\<And>a b y. wl a b = Some y \<Longrightarrow> a = 0 \<longrightarrow> 0 \<le> b"
    and step: "(if g < 0 then wl n (n + g) else Some g) = Some y"
  show "n = 0 \<longrightarrow> 0 \<le> g"
  proof
    assume n: "n = 0"
    show "0 \<le> g"
    proof (rule ccontr)
      assume "\<not> 0 \<le> g"
      then have neg: "g < 0" by simp
      with step n have "wl 0 g = Some y" by simp
      then have "0 \<le> g" using IH by blast
      with neg show False by simp
    qed
  qed
qed

lemma wrap_loop_diverges: "g < 0 \<Longrightarrow> wrap_loop 0 g = None"
  using wrap_loop_Some_zero [of 0 g] by (cases "wrap_loop 0 g") auto

lemma index_lists_wraparound:
  assumes "g < 0" and "0 \<le> n + g"
  shows "index_lists s n [g] l = index_lists s n [n + g] l"
  using assms by (simp add: wrap_loop_once wrap_loop_nonneg)

lemma local_index_lists_wraparound:
  assumes "g < 0" and "- int (pset_size s) \<le> g"
  shows "local_index_lists s (Scalar g) = local_index_lists s (Scalar (g + int (pset_size s)))"
proof -
  from assms have "0 \<le> int (pset_size s) + g" by simp
  with assms(1) have "index_lists s (int (pset_size s)) [g] l
      = index_lists s (int (pset_size s)) [int (pset_size s) + g] l" for l
    by (rule index_lists_wraparound)
  then show ?thesis by (simp add: local_index_lists_def add.commute)
qed

lemma pop_wraparound:
  assumes "g < 0" and "- int (pset_size s) \<le> g"
  shows "pop s (Scalar g) = pop s (Scalar (g + int (pset_size s)))"
  using local_index_lists_wraparound [OF assms] by (simp add: pop_def)

lemma remove_wraparound:
  assumes "g < 0" and "- int (pset_size s) \<le> g"
  shows "remove_particles s (Scalar g) = remove_particles s (Scalar (g + int (pset_size s)))"
  using local_index_lists_wraparound [OF assms] by (simp add: remove_particles_def)

lemma index_loop_negative:
  assumes "key < 0"
  shows "index_loop bounds key 0 0 (int c) = Inr (0, key)"
  using assms by (subst index_loop.simps) simp

lemma global_index_negative:
  assumes "pid_mapping_bounds s \<noteq> []" and "key < 0"
  shows "global_index s key = Inr (0, key)"
  using assms by (simp add: global_index_def bind_err_def list_get_def index_loop_negative)

lemma np_index_last:
  assumes "xs \<noteq> []"
  shows "np_index xs (- 1) = Inr (last xs)"
proof -
  from assms obtain y ys where xs: "xs = y # ys" by (cases xs) auto
  have "np_in_range (length xs) (- 1)" by (simp add: xs np_in_range_def)
  moreover have "np_wrap (length xs) (- 1) = length xs - 1" by (simp add: xs np_wrap_def)
  ultimately show ?thesis using assms by (simp add: np_index_def last_conv_nth)
qed

text \<open>Two sets of two particles, added.\<close>

definition two_and_two :: pset where
  "two_and_two = pset_add (ParticleSet [mk 0, mk 1]) (ParticleSet [mk 2, mk 3])"

lemma two_and_two_eq:
  "two_and_two =
     \<lparr>plist = [[mk 0, mk 1], [mk 2, mk 3]], pid_mapping_bounds = [(0, 1, 2), (2, 3, 2)],
      nlist_limit = 4096\<rparr>"
  by (simp add: two_and_two_def store_defs mk_def)

text \<open>
  Claim C9, as the code has it. \<open>__getitem__\<close> has no wraparound over the whole store: a
  negative key leaves the loop at once with bracket 0 and the key as slot, so it is numpy's
  negative indexing inside bracket 0. With key \<open>-1\<close> that is the last record of bracket 0
  when bracket 0 holds a record, and \<open>IndexError\<close> when bracket 0 is empty. \<open>pop\<close> and
  \<open>remove\<close> do normalise: an index \<open>g\<close> with \<open>-size \<le> g < 0\<close> is treated as \<open>g + size\<close>.
\<close>

theorem getitem_negative_key:
  "(pid_mapping_bounds s \<noteq> [] \<and> key < 0 \<longrightarrow>
      getitem s key = bind_err (list_get (plist s) 0) (\<lambda>bracket. np_index bracket key))
   \<and> (pid_mapping_bounds s \<noteq> [] \<and> plist s \<noteq> [] \<and> plist s ! 0 \<noteq> [] \<longrightarrow>
      getitem s (- 1) = Inr (last (plist s ! 0)))
   \<and> (pid_mapping_bounds s \<noteq> [] \<and> plist s \<noteq> [] \<and> plist s ! 0 = [] \<longrightarrow>
      getitem s (- 1) = Inl IndexError)
   \<and> (g < 0 \<and> - int (pset_size s) \<le> g \<longrightarrow>
      pop s (Scalar g) = pop s (Scalar (g + int (pset_size s))) \<and>
      remove_particles s (Scalar g) = remove_particles s (Scalar (g + int (pset_size s))))"
proof (intro conjI impI)
  assume "pid_mapping_bounds s \<noteq> [] \<and> key < 0"
  then show "getitem s key = bind_err (list_get (plist s) 0) (\<lambda>bracket. np_index bracket key)"
    by (simp add: getitem_def global_index_negative bind_err_def)
next
  assume a: "pid_mapping_bounds s \<noteq> [] \<and> plist s \<noteq> [] \<and> plist s ! 0 \<noteq> []"
  then have "getitem s (- 1) = np_index (plist s ! 0) (- 1)"
    by (simp add: getitem_def global_index_negative bind_err_def list_get_def)
  with a show "getitem s (- 1) = Inr (last (plist s ! 0))" by (simp add: np_index_last)
next
  assume a: "pid_mapping_bounds s \<noteq> [] \<and> plist s \<noteq> [] \<and> plist s ! 0 = []"
  then have "getitem s (- 1) = np_index (plist s ! 0) (- 1)"
    by (simp add: getitem_def global_index_negative bind_err_def list_get_def)
  with a show "getitem s (- 1) = Inl IndexError" by (simp add: np_index_def np_in_range_def)
next
  assume "g < 0 \<and> - int (pset_size s) \<le> g"
  then show "pop s (Scalar g) = pop s (Scalar (g + int (pset_size s)))"
    by (simp add: pop_wraparound)
next
  assume "g < 0 \<and> - int (pset_size s) \<le> g"
  then show "remove_particles s (Scalar g) = remove_particles s (Scalar (g + int (pset_size s)))"
    by (simp add: remove_wraparound)
qed

lemma pop_last_two_and_two:
  "pop two_and_two (Scalar 3) =
     Some (Inr (One (mk 3),
       \<lparr>plist = [[mk 0, mk 1, mk 2]], pid_mapping_bounds = [(0, 2, 3)], nlist_limit = 4096\<rparr>))"
  by (simp add: two_and_two_eq store_defs mk_def)

theorem getitem_negative_key_witness:
  "getitem two_and_two (- 1) = Inr (mk 1)
   \<and> last (concat (plist two_and_two)) = mk 3
   \<and> getitem two_and_two (- 2) = Inr (mk 0)
   \<and> getitem two_and_two (- 3) = Inl IndexError
   \<and> getitem empty_first (- 1) = Inl IndexError
   \<and> pop two_and_two (Scalar (- 1)) =
       Some (Inr (One (mk 3),
         \<lparr>plist = [[mk 0, mk 1, mk 2]], pid_mapping_bounds = [(0, 2, 3)],
          nlist_limit = 4096\<rparr>))"
proof -
  have sz: "pset_size two_and_two = 4" by (simp add: two_and_two_eq store_defs)
  have b: "pid_mapping_bounds two_and_two \<noteq> []" by (simp add: two_and_two_eq)
  have "getitem two_and_two (- 1) = Inr (mk 1)"
    using getitem_negative_key [of two_and_two "- 1" 0] b
    by (simp add: two_and_two_eq store_defs)
  moreover have "getitem two_and_two (- 2) = Inr (mk 0)"
    using getitem_negative_key [of two_and_two "- 2" 0] b
    by (simp add: two_and_two_eq store_defs)
  moreover have "getitem two_and_two (- 3) = Inl IndexError"
    using getitem_negative_key [of two_and_two "- 3" 0] b
    by (simp add: two_and_two_eq store_defs)
  moreover have "getitem empty_first (- 1) = Inl IndexError"
    using getitem_negative_key [of empty_first "- 1" 0]
    by (simp add: empty_first_eq store_defs)
  moreover have "pop two_and_two (Scalar (- 1)) = pop two_and_two (Scalar 3)"
    using getitem_negative_key [of two_and_two 0 "- 1"] sz by simp
  moreover have "last (concat (plist two_and_two)) = mk 3" by (simp add: two_and_two_eq)
  ultimately show ?thesis by (simp add: pop_last_two_and_two)
qed

text \<open>
  A store with two brackets where key \<open>-1\<close> returns no record: bracket 0 is empty (the
  only particle of a set was removed, then a set was added).
\<close>

theorem getitem_empty_first_bracket:
  "remove_particles (ParticleSet [mk 0]) (Scalar 0) = Some (Inr emptied)
   \<and> empty_first = pset_add emptied (ParticleSet [mk 1])
   \<and> length (plist empty_first) = 2
   \<and> consistent empty_first
   \<and> getitem empty_first (- 1) = Inl IndexError"
  by (simp add: emptied_reached empty_first_def [symmetric])
     (simp add: empty_first_eq getitem_def consistent_def bracket_ok_def store_defs mk_def)

section \<open>A set of at most 4096 particles is one bracket\<close>

lemma fill_loop_single:
  assumes "i + length ps \<le> length xs" and "length xs \<le> 4096"
  shows "fill_loop ps i
           \<lparr>plist = [xs], pid_mapping_bounds = [(lo, hi, c)], nlist_limit = 4096\<rparr> =
         \<lparr>plist = [take i xs @ ps @ drop (i + length ps) xs],
          pid_mapping_bounds =
            [(fold (\<lambda>p m. min (pid p) m) ps lo, fold (\<lambda>p m. max (pid p) m) ps hi, c)],
          nlist_limit = 4096\<rparr>"
  using assms
proof (induction ps arbitrary: i xs lo hi)
  case Nil
  then show ?case by simp
next
  case (Cons p ps)
  from Cons.prems have i: "i < length xs" and small: "i < 4096" by simp_all
  have len: "Suc i + length ps \<le> length (xs[i := p])" using Cons.prems by simp
  have len': "length (xs[i := p]) \<le> 4096" using Cons.prems by simp
  have tk: "take (Suc i) (xs[i := p]) = take i xs @ [p]"
    using i by (simp add: take_Suc_conv_app_nth)
  have dr: "drop (Suc i + length ps) (xs[i := p]) = drop (Suc i + length ps) xs"
    by simp
  have "fill_loop (p # ps) i
          \<lparr>plist = [xs], pid_mapping_bounds = [(lo, hi, c)], nlist_limit = 4096\<rparr> =
        fill_loop ps (Suc i)
          \<lparr>plist = [xs[i := p]],
           pid_mapping_bounds = [(min (pid p) lo, max (pid p) hi, c)], nlist_limit = 4096\<rparr>"
    using small by (simp add: min_id_def max_id_def size_bracket_def)
  also have "\<dots> =
        \<lparr>plist = [take (Suc i) (xs[i := p]) @ ps @ drop (Suc i + length ps) (xs[i := p])],
         pid_mapping_bounds =
           [(fold (\<lambda>p m. min (pid p) m) ps (min (pid p) lo),
             fold (\<lambda>p m. max (pid p) m) ps (max (pid p) hi), c)],
         nlist_limit = 4096\<rparr>"
    using len len' by (rule Cons.IH)
  finally show ?case by (simp add: tk dr)
qed

lemma ParticleSet_single:
  assumes "0 < length ps" and "length ps \<le> 4096"
  shows "ParticleSet ps =
         \<lparr>plist = [ps],
          pid_mapping_bounds =
            [(fold (\<lambda>p m. min (pid p) m) ps int32_max,
              fold (\<lambda>p m. max (pid p) m) ps int32_min, length ps)],
          nlist_limit = 4096\<rparr>"
proof -
  have m: "min (length ps) 4096 = length ps" using assms by simp
  have "alloc_loop (length ps) 0 \<lparr>plist = [], pid_mapping_bounds = [], nlist_limit = 4096\<rparr> =
        \<lparr>plist = [replicate (length ps) empty_slot],
         pid_mapping_bounds = [(int32_max, int32_min, length ps)], nlist_limit = 4096\<rparr>"
    using assms by (subst alloc_loop.simps, simp add: m) (subst alloc_loop.simps, simp)
  then show ?thesis
    using fill_loop_single [of 0 ps "replicate (length ps) empty_slot"] assms
    by (simp add: ParticleSet_def)
qed

lemma fold_min_Min:
  "fold (\<lambda>p m. min (pid p) m) ps lo = Min (insert lo (pid ` set ps))"
proof (induction ps arbitrary: lo)
  case Nil
  then show ?case by simp
next
  case (Cons p ps)
  have fin: "finite (pid ` set ps)" by simp
  have "Min (insert (min (pid p) lo) (pid ` set ps)) = Min (insert lo (insert (pid p) (pid ` set ps)))"
  proof (cases "pid ` set ps = {}")
    case True
    then show ?thesis by (simp add: min.commute)
  next
    case False
    with fin show ?thesis by (simp add: min.assoc min.commute)
  qed
  with Cons show ?case by simp
qed

lemma fold_max_Max:
  "fold (\<lambda>p m. max (pid p) m) ps hi = Max (insert hi (pid ` set ps))"
proof (induction ps arbitrary: hi)
  case Nil
  then show ?case by simp
next
  case (Cons p ps)
  have fin: "finite (pid ` set ps)" by simp
  have "Max (insert (max (pid p) hi) (pid ` set ps)) = Max (insert hi (insert (pid p) (pid ` set ps)))"
  proof (cases "pid ` set ps = {}")
    case True
    then show ?thesis by (simp add: max.commute)
  next
    case False
    with fin show ?thesis by (simp add: max.assoc max.commute)
  qed
  with Cons show ?case by simp
qed

section \<open>The index of a global position\<close>

text \<open>Sets of two, one and two particles, added.\<close>

definition two_one_two :: pset where
  "two_one_two =
     pset_add (pset_add (ParticleSet [mk 0, mk 1]) (ParticleSet [mk 2])) (ParticleSet [mk 3, mk 4])"

lemma two_one_two_eq:
  "two_one_two =
     \<lparr>plist = [[mk 0, mk 1], [mk 2], [mk 3, mk 4]],
      pid_mapping_bounds = [(0, 1, 2), (2, 2, 1), (3, 4, 2)], nlist_limit = 4096\<rparr>"
  by (simp add: two_one_two_def store_defs mk_def)

text \<open>
  Claim C1, evaluated. The claim: the integer branch of \<open>get_list_array_index\<close> (and
  \<open>__getitem__\<close>) finds the bracket and slot of the \<open>i\<close>-th record of the concatenation,
  and fails for \<open>i\<close> at or beyond \<open>size\<close>. The loop adds the size of the bracket it
  leaves, not of the one it enters. After a set of one particle and a set of three are
  added, index 2 (the record at bracket 1, slot 1) resolves to bracket 2, slot 0, which
  does not exist, and \<open>__getitem__\<close> raises \<open>IndexError\<close>; with brackets of sizes 2, 1, 2,
  key 4 returns the record of global index 3; and in a set of three particles index 3,
  which is \<open>size\<close>, resolves to bracket 1, slot 0 without any failure.
\<close>

theorem global_index_off_by_one:
  "consistent one_and_three
   \<and> concat (plist one_and_three) ! 2 = mk 2
   \<and> plist one_and_three ! 1 ! 1 = mk 2
   \<and> get_list_array_index one_and_three (Global 2) = Inr (Located 2 0)
   \<and> getitem one_and_three 2 = Inl IndexError
   \<and> consistent two_one_two
   \<and> concat (plist two_one_two) ! 4 = mk 4
   \<and> getitem two_one_two 4 = Inr (mk 3)
   \<and> pset_size (ParticleSet [mk 0, mk 1, mk 2]) = 3
   \<and> get_list_array_index (ParticleSet [mk 0, mk 1, mk 2]) (Global 3) = Inr (Located 1 0)"
proof -
  have "consistent one_and_three"
    by (simp add: one_and_three_eq consistent_def bracket_ok_def store_defs mk_def)
  moreover have "concat (plist one_and_three) ! 2 = mk 2" "plist one_and_three ! 1 ! 1 = mk 2"
    by (simp_all add: one_and_three_eq)
  moreover have "get_list_array_index one_and_three (Global 2) = Inr (Located 2 0)"
    by (simp add: one_and_three_eq get_list_array_index_def store_defs)
  moreover have "getitem one_and_three 2 = Inl IndexError"
    by (simp add: one_and_three_eq getitem_def store_defs)
  moreover have "consistent two_one_two"
    by (simp add: two_one_two_eq consistent_def bracket_ok_def store_defs mk_def)
  moreover have "concat (plist two_one_two) ! 4 = mk 4"
    by (simp add: two_one_two_eq)
  moreover have "getitem two_one_two 4 = Inr (mk 3)"
    by (simp add: two_one_two_eq getitem_def store_defs)
  moreover have "pset_size (ParticleSet [mk 0, mk 1, mk 2]) = 3"
    by (simp add: store_defs mk_def)
  moreover have
    "get_list_array_index (ParticleSet [mk 0, mk 1, mk 2]) (Global 3) = Inr (Located 1 0)"
    by (simp add: get_list_array_index_def store_defs mk_def)
  ultimately show ?thesis by simp
qed

section \<open>Removing the last particle\<close>

text \<open>A set of one particle and a set of four, added.\<close>

definition one_and_four :: pset where
  "one_and_four = pset_add (ParticleSet [mk 0]) (ParticleSet [mk 1, mk 2, mk 3, mk 4])"

lemma one_and_four_eq:
  "one_and_four =
     \<lparr>plist = [[mk 0], [mk 1, mk 2, mk 3, mk 4]],
      pid_mapping_bounds = [(0, 0, 1), (1, 4, 4)], nlist_limit = 4096\<rparr>"
  by (simp add: one_and_four_def store_defs mk_def)

lemma remove_last_of_five:
  "remove_particles (ParticleSet [mk 0, mk 1, mk 2, mk 3, mk 4]) (Scalar (- 1)) =
     Some (Inr \<lparr>plist = [[mk 0, mk 1, mk 2, mk 3]], pid_mapping_bounds = [(0, 3, 4)],
                nlist_limit = 4096\<rparr>)"
  by (simp add: store_defs mk_def)

lemma pop_last_of_five:
  "pop (ParticleSet [mk 0, mk 1, mk 2, mk 3, mk 4]) (Scalar (- 1)) =
     Some (Inr (One (mk 4),
       \<lparr>plist = [[mk 0, mk 1, mk 2, mk 3]], pid_mapping_bounds = [(0, 3, 4)],
        nlist_limit = 4096\<rparr>))"
  by (simp add: store_defs mk_def)

text \<open>
  Claim C7, evaluated. The wraparound itself is as the claim says (\<open>pop_wraparound\<close>,
  \<open>remove_wraparound\<close>: an index \<open>g\<close> with \<open>-size \<le> g < 0\<close> is treated as \<open>g + size\<close>), and
  in a set constructed from five particles \<open>remove(-1)\<close> removes the last one
  (\<open>remove_last_of_five\<close>). In the population of five particles that adding a set of four
  to a set of one gives, index \<open>-1\<close> becomes 4, which resolves to bracket 2, slot 2; the
  store has two brackets, and \<open>remove(-1)\<close> and \<open>pop(-1)\<close> raise \<open>IndexError\<close>.
\<close>

theorem remove_last_of_one_and_four:
  "consistent one_and_four
   \<and> pset_size one_and_four = 5
   \<and> global_index one_and_four 4 = Inr (2, 2)
   \<and> remove_particles one_and_four (Scalar (- 1)) = Some (Inl IndexError)
   \<and> pop one_and_four (Scalar (- 1)) = Some (Inl IndexError)"
proof -
  have "consistent one_and_four"
    by (simp add: one_and_four_eq consistent_def bracket_ok_def store_defs mk_def)
  moreover have "pset_size one_and_four = 5" by (simp add: one_and_four_eq store_defs)
  moreover have "global_index one_and_four 4 = Inr (2, 2)"
    by (simp add: one_and_four_eq store_defs)
  moreover have "remove_particles one_and_four (Scalar (- 1)) = Some (Inl IndexError)"
    by (simp add: one_and_four_eq store_defs)
  moreover have "pop one_and_four (Scalar (- 1)) = Some (Inl IndexError)"
    by (simp add: one_and_four_eq store_defs)
  ultimately show ?thesis by simp
qed

section \<open>The invariant under removal\<close>

text \<open>The particles with identities 1 to 2048: half the limit of a bracket.\<close>

definition big :: "particle list" where
  "big = map (\<lambda>i. mk (int i)) [1..<2049]"

lemma length_big: "length big = 2048"
  by (simp add: big_def)

lemma big_ids: "list_all (\<lambda>p. 1 \<le> pid p \<and> pid p \<le> 2048) big"
  by (auto simp: big_def list_all_iff mk_def)

text \<open>A set of one particle to which the set of \<open>big\<close> is added, and that set added to itself.\<close>

definition small_big :: pset where
  "small_big =
     \<lparr>plist = [[mk 0], big], pid_mapping_bounds = [(0, 0, 1), (1, 2048, 2048)],
      nlist_limit = 4096\<rparr>"

definition doubled :: pset where
  "doubled = pset_add small_big small_big"

text \<open>The brackets of \<open>doubled\<close> without the third, the tuples of \<open>doubled\<close> without the first.\<close>

definition shifted :: pset where
  "shifted =
     \<lparr>plist = [[mk 0], big, big],
      pid_mapping_bounds = [(1, 2048, 2048), (0, 0, 1), (1, 2048, 2048)],
      nlist_limit = 4096\<rparr>"

lemma doubled_eq:
  "doubled =
     \<lparr>plist = [[mk 0], big, [mk 0], big],
      pid_mapping_bounds = [(0, 0, 1), (1, 2048, 2048), (0, 0, 1), (1, 2048, 2048)],
      nlist_limit = 4096\<rparr>"
  by (simp add: doubled_def small_big_def pset_add_def)

lemma consistent_doubled: "consistent doubled"
  using big_ids
  by (simp add: doubled_eq consistent_def bracket_ok_def size_bracket_def min_id_def max_id_def
      length_big mk_def)

lemma remove_doubled: "remove_particles doubled (Scalar 2) = Some (Inr shifted)"
  by (simp add: doubled_eq shifted_def store_defs length_big mk_def)

lemma big_set: "pid ` set big = {1..2048}"
proof
  show "pid ` set big \<subseteq> {1..2048}" by (auto simp: big_def mk_def)
next
  show "{1..2048} \<subseteq> pid ` set big"
  proof
    fix x :: int
    assume x: "x \<in> {1..2048}"
    then have "nat x \<in> set [1..<2049]" by simp linarith
    then have "mk (int (nat x)) \<in> set big" unfolding big_def set_map by (rule imageI)
    moreover from x have "pid (mk (int (nat x))) = x" by (simp add: mk_def)
    ultimately show "x \<in> pid ` set big" by force
  qed
qed

lemma ParticleSet_big:
  "ParticleSet big =
     \<lparr>plist = [big], pid_mapping_bounds = [(1, 2048, 2048)], nlist_limit = 4096\<rparr>"
proof -
  have "Min (insert int32_max {1..2048::int}) = 1"
    by (rule Min_eqI) (auto simp: int32_max_def)
  moreover have "Max (insert int32_min {1..2048::int}) = 2048"
    by (rule Max_eqI) (auto simp: int32_min_def)
  ultimately show ?thesis
    using ParticleSet_single [of big]
    by (simp add: length_big fold_min_Min fold_max_Max big_set)
qed

lemma small_big_built: "small_big = pset_add (ParticleSet [mk 0]) (ParticleSet big)"
proof -
  have "ParticleSet [mk 0] =
      \<lparr>plist = [[mk 0]], pid_mapping_bounds = [(0, 0, 1)], nlist_limit = 4096\<rparr>"
    by (simp add: store_defs mk_def)
  then show ?thesis by (simp add: ParticleSet_big small_big_def pset_add_def)
qed

text \<open>
  Claim C4, evaluated. The claim: after any sequence of construction, add, pop and remove
  every cached size is the length of its array and the cached identities bound the
  identities of the bracket. When \<open>_remove_\<close> empties a bracket it takes the tuple out of
  \<open>_pid_mapping_bounds\<close> with \<open>list.remove\<close>, by value, so the first equal tuple goes
  (\<open>_merge_brackets_\<close> uses \<open>del\<close> by index). In \<open>doubled\<close> brackets 0 and 2 have the same
  tuple; \<open>remove(2)\<close> empties bracket 2 and deletes the tuple of bracket 0. Afterwards
  bracket 0 holds one particle, of identity 0, under the tuple \<open>(1, 2048, 2048)\<close>, and no
  merge repairs it, since only one cached size is below 2048.
\<close>

theorem remove_breaks_summary:
  "small_big = pset_add (ParticleSet [mk 0]) (ParticleSet big)
   \<and> doubled = pset_add small_big small_big
   \<and> consistent doubled
   \<and> remove_particles doubled (Scalar 2) = Some (Inr shifted)
   \<and> \<not> consistent shifted
   \<and> length (plist shifted ! 0) = 1
   \<and> size_bracket (pid_mapping_bounds shifted ! 0) = 2048
   \<and> pid (plist shifted ! 0 ! 0) = 0
   \<and> min_id (pid_mapping_bounds shifted ! 0) = 1"
proof -
  have "\<not> consistent shifted"
    by (simp add: shifted_def consistent_def bracket_ok_def size_bracket_def)
  moreover have "length (plist shifted ! 0) = 1"
    "size_bracket (pid_mapping_bounds shifted ! 0) = 2048"
    "pid (plist shifted ! 0 ! 0) = 0" "min_id (pid_mapping_bounds shifted ! 0) = 1"
    by (simp_all add: shifted_def size_bracket_def min_id_def mk_def)
  ultimately show ?thesis
    using consistent_doubled remove_doubled small_big_built by (simp add: doubled_def)
qed

section \<open>Lookups by identity\<close>

text \<open>
  Bracket \<open>b\<close> is the first whose cached range admits identity \<open>i\<close>: where the first loop
  of the particle branch stops.
\<close>

definition admits :: "bracket_info \<Rightarrow> int \<Rightarrow> bool" where
  "admits info i = (min_id info \<le> i \<and> i \<le> max_id info)"

definition first_admitting :: "pset \<Rightarrow> int \<Rightarrow> nat \<Rightarrow> bool" where
  "first_admitting s i b =
     (length (pid_mapping_bounds s) = length (plist s) \<and> b < length (plist s) \<and>
      admits (pid_mapping_bounds s ! b) i \<and>
      list_all (\<lambda>j. \<not> admits (pid_mapping_bounds s ! j) i) [0..<b])"

text \<open>A set of three particles after \<open>remove(1)\<close>, and a set of one particle added to itself.\<close>

definition gap :: pset where
  "gap = \<lparr>plist = [[mk 0, mk 2]], pid_mapping_bounds = [(0, 2, 2)], nlist_limit = 4096\<rparr>"

definition twice :: pset where
  "twice = pset_add (ParticleSet [mk 0]) (ParticleSet [mk 0])"

lemma gap_reached:
  "remove_particles (ParticleSet [mk 0, mk 1, mk 2]) (Scalar 1) = Some (Inr gap)"
  by (simp add: gap_def store_defs mk_def)

lemma twice_eq:
  "twice =
     \<lparr>plist = [[mk 0], [mk 0]], pid_mapping_bounds = [(0, 0, 1), (0, 0, 1)],
      nlist_limit = 4096\<rparr>"
  by (simp add: twice_def store_defs mk_def)

lemma located_fst:
  "map fst (concat (map (\<lambda>(bracket_index, sublist).
       map (\<lambda>(slot_index, p). (p, bracket_index, slot_index))
         (filter (\<lambda>(slot_index, p). P p) (enumerate m sublist)))
     (enumerate n bs))) = filter P (concat bs)"
proof (induction bs arbitrary: n)
  case Nil
  then show ?case by simp
next
  case (Cons b bs)
  have "map fst (map (\<lambda>(slot_index, p). (p, n, slot_index))
          (filter (\<lambda>(slot_index, p). P p) (enumerate k b))) = filter P b" for k
    by (induction b arbitrary: k) simp_all
  with Cons show ?case by simp
qed

lemma located_count:
  "length (located_particle s i) = length (filter (\<lambda>p. pid p = i) (concat (plist s)))"
proof -
  have "map fst (located_particle s i) = filter (\<lambda>p. pid p = i) (concat (plist s))"
    unfolding located_particle_def by (rule located_fst)
  then show ?thesis by (metis length_map)
qed

lemma located_place:
  assumes "(p, b, k) \<in> set (located_particle s i)"
  shows "b < length (plist s) \<and> k < length (plist s ! b) \<and> plist s ! b ! k = p \<and> pid p = i"
  using assms by (auto simp: located_particle_def in_set_enumerate_eq)

lemma by_PID_not_unique:
  assumes "length (filter (\<lambda>p. pid p = i) (concat (plist s))) \<noteq> 1"
  shows "get_list_array_index_by_PID s i = Minus_One"
proof -
  from assms have "length (located_particle s i) \<noteq> 1" by (simp add: located_count)
  then have "length (located_particle s i) < 1 \<or> length (located_particle s i) > 1" by arith
  then show ?thesis by (auto simp: get_list_array_index_by_PID_def Let_def)
qed

lemma by_PID_unique:
  assumes "length (filter (\<lambda>p. pid p = i) (concat (plist s))) = 1"
  shows "\<exists>b k. get_list_array_index_by_PID s i = Located b (int k) \<and> b < length (plist s) \<and>
           k < length (plist s ! b) \<and> pid (plist s ! b ! k) = i"
proof -
  from assms have one: "length (located_particle s i) = 1" by (simp add: located_count)
  then obtain x where x: "located_particle s i = [x]"
    by (cases "located_particle s i") auto
  obtain p b k where pbk: "x = (p, b, k)" by (cases x) auto
  with x have "(p, b, k) \<in> set (located_particle s i)" by simp
  then have "b < length (plist s) \<and> k < length (plist s ! b) \<and> plist s ! b ! k = p \<and> pid p = i"
    by (rule located_place)
  moreover have "get_list_array_index_by_PID s i = Located b (int k)"
    using x pbk by (simp add: get_list_array_index_by_PID_def)
  ultimately show ?thesis by blast
qed

lemma slot_loop_takeWhile:
  "slot_loop bracket i k = k + length (takeWhile (\<lambda>q. pid q \<noteq> i) (drop k bracket))"
proof (induction bracket i k rule: slot_loop.induct)
  case (1 bracket i k)
  show ?case
  proof (cases "k < length bracket \<and> pid (bracket ! k) \<noteq> i")
    case True
    then have "drop k bracket = bracket ! k # drop (Suc k) bracket"
      by (simp add: Cons_nth_drop_Suc)
    with True "1.IH" show ?thesis by (subst slot_loop.simps) simp
  next
    case False
    show ?thesis
    proof (cases "k < length bracket")
      case True
      with False have "pid (bracket ! k) = i" by simp
      moreover from True have "drop k bracket = bracket ! k # drop (Suc k) bracket"
        by (simp add: Cons_nth_drop_Suc)
      ultimately show ?thesis using False by (subst slot_loop.simps) simp
    next
      case False
      then show ?thesis by (subst slot_loop.simps) simp
    qed
  qed
qed

lemma takeWhile_shorter:
  assumes "\<exists>q \<in> set xs. \<not> P q"
  shows "length (takeWhile P xs) < length xs"
  using assms by (induction xs) auto

lemma bracket_loop_first:
  assumes "length (pid_mapping_bounds s) = length (plist s)"
    and "b < length (plist s)" and "admits (pid_mapping_bounds s ! b) i"
    and "\<forall>k. j \<le> k \<and> k < b \<longrightarrow> \<not> admits (pid_mapping_bounds s ! k) i"
    and "j \<le> b"
  shows "bracket_loop s i j (pid_mapping_bounds s ! j) = Inr b"
  using assms(4,5)
proof (induction "b - j" arbitrary: j)
  case 0
  then have "j = b" by simp
  with assms(2,3) show ?case by (subst bracket_loop.simps) (auto simp: admits_def)
next
  case (Suc d)
  then have lt: "j < b" by simp
  with Suc.prems have "\<not> admits (pid_mapping_bounds s ! j) i" by simp
  then have out: "i < min_id (pid_mapping_bounds s ! j) \<or> i > max_id (pid_mapping_bounds s ! j)"
    by (auto simp: admits_def)
  have "bracket_loop s i (j + 1) (pid_mapping_bounds s ! (j + 1)) = Inr b"
    using Suc.hyps Suc.prems lt by (intro Suc.hyps(1)) auto
  with out lt assms(1,2) show ?case by (subst bracket_loop.simps) auto
qed

lemma particle_lookup:
  assumes "first_admitting s (pid p) b"
  shows "get_list_array_index s (Particle p) =
           Inr (if length (takeWhile (\<lambda>q. pid q \<noteq> pid p) (plist s ! b)) < length (plist s ! b)
                then Located b (int (length (takeWhile (\<lambda>q. pid q \<noteq> pid p) (plist s ! b))))
                else Minus_One)"
proof -
  from assms have len: "length (pid_mapping_bounds s) = length (plist s)"
    and b: "b < length (plist s)" and ad: "admits (pid_mapping_bounds s ! b) (pid p)"
    and before: "\<forall>k. 0 \<le> k \<and> k < b \<longrightarrow> \<not> admits (pid_mapping_bounds s ! k) (pid p)"
    by (auto simp: first_admitting_def list_all_iff)
  have "bracket_loop s (pid p) 0 (pid_mapping_bounds s ! 0) = Inr b"
    using len b ad before by (rule bracket_loop_first) simp
  moreover from len b have "0 < length (pid_mapping_bounds s)" by linarith
  then have "list_get (pid_mapping_bounds s) 0 = Inr (pid_mapping_bounds s ! 0)"
    unfolding list_get_def by (rule if_P)
  ultimately show ?thesis
    using b
    by (simp add: get_list_array_index_def bind_err_def slot_loop_takeWhile [of _ _ 0] Let_def)
qed

text \<open>
  Claim C2, as the code has it. The identity lookups signal failure with the return value
  \<open>-1\<close>, not with an exception. \<open>get_list_array_index_by_PID\<close> returns \<open>-1\<close> when no
  record has the identity and when more than one has it, and the place of the record when
  exactly one has it. The particle branch of \<open>get_list_array_index\<close> looks into the first
  bracket whose cached range admits the identity, there only: it returns \<open>-1\<close> when that
  bracket has no record of the identity, else the first slot with it; it never looks for a
  second match.
\<close>

theorem identity_lookup_returns_minus_one:
  "(length (filter (\<lambda>q. pid q = i) (concat (plist s))) \<noteq> 1 \<longrightarrow>
      get_list_array_index_by_PID s i = Minus_One)
   \<and> (length (filter (\<lambda>q. pid q = i) (concat (plist s))) = 1 \<longrightarrow>
      (\<exists>b k. get_list_array_index_by_PID s i = Located b (int k) \<and> b < length (plist s) \<and>
         k < length (plist s ! b) \<and> pid (plist s ! b ! k) = i))
   \<and> (first_admitting s (pid p) b \<and> list_all (\<lambda>q. pid q \<noteq> pid p) (plist s ! b) \<longrightarrow>
      get_list_array_index s (Particle p) = Inr Minus_One)
   \<and> (first_admitting s (pid p) b \<and> \<not> list_all (\<lambda>q. pid q \<noteq> pid p) (plist s ! b) \<longrightarrow>
      get_list_array_index s (Particle p) =
        Inr (Located b (int (length (takeWhile (\<lambda>q. pid q \<noteq> pid p) (plist s ! b))))))"
proof (intro conjI impI)
  assume "length (filter (\<lambda>q. pid q = i) (concat (plist s))) \<noteq> 1"
  then show "get_list_array_index_by_PID s i = Minus_One" by (rule by_PID_not_unique)
next
  assume "length (filter (\<lambda>q. pid q = i) (concat (plist s))) = 1"
  then show "\<exists>b k. get_list_array_index_by_PID s i = Located b (int k) \<and> b < length (plist s) \<and>
      k < length (plist s ! b) \<and> pid (plist s ! b ! k) = i"
    by (rule by_PID_unique)
next
  assume a: "first_admitting s (pid p) b \<and> list_all (\<lambda>q. pid q \<noteq> pid p) (plist s ! b)"
  then have "takeWhile (\<lambda>q. pid q \<noteq> pid p) (plist s ! b) = plist s ! b"
    by (simp add: list_all_iff)
  then have "\<not> length (takeWhile (\<lambda>q. pid q \<noteq> pid p) (plist s ! b)) < length (plist s ! b)"
    by (metis less_irrefl)
  moreover from a have "first_admitting s (pid p) b" by simp
  ultimately show "get_list_array_index s (Particle p) = Inr Minus_One"
    using particle_lookup [of s p b] by (metis (full_types))
next
  assume a: "first_admitting s (pid p) b \<and> \<not> list_all (\<lambda>q. pid q \<noteq> pid p) (plist s ! b)"
  then have "\<exists>q \<in> set (plist s ! b). \<not> pid q \<noteq> pid p" by (simp add: list_all_iff)
  then have "length (takeWhile (\<lambda>q. pid q \<noteq> pid p) (plist s ! b)) < length (plist s ! b)"
    by (rule takeWhile_shorter)
  moreover from a have "first_admitting s (pid p) b" by simp
  ultimately show "get_list_array_index s (Particle p) =
      Inr (Located b (int (length (takeWhile (\<lambda>q. pid q \<noteq> pid p) (plist s ! b)))))"
    using particle_lookup [of s p b] by (metis (full_types))
qed

theorem identity_lookup_returns_minus_one_witness:
  "get_list_array_index_by_PID gap 1 = Minus_One
   \<and> get_list_array_index_by_PID twice 0 = Minus_One
   \<and> get_list_array_index_by_PID gap 2 = Located 0 1
   \<and> first_admitting gap 1 0
   \<and> get_list_array_index gap (Particle (mk 1)) = Inr Minus_One
   \<and> first_admitting twice 0 0
   \<and> get_list_array_index twice (Particle (mk 0)) = Inr (Located 0 0)"
proof -
  have fa: "first_admitting gap 1 0" "first_admitting twice 0 0"
    by (simp_all add: first_admitting_def admits_def gap_def twice_eq min_id_def max_id_def)
  have "get_list_array_index_by_PID gap 1 = Minus_One"
    using identity_lookup_returns_minus_one [of 1 gap "mk 1" 0]
    by (simp add: gap_def mk_def)
  moreover have "get_list_array_index_by_PID twice 0 = Minus_One"
    using identity_lookup_returns_minus_one [of 0 twice "mk 0" 0]
    by (simp add: twice_eq mk_def)
  moreover have "get_list_array_index_by_PID gap 2 = Located 0 1"
    using identity_lookup_returns_minus_one [of 2 gap "mk 1" 0]
    by (auto simp: gap_def mk_def less_Suc_eq)
  moreover have "get_list_array_index gap (Particle (mk 1)) = Inr Minus_One"
    using identity_lookup_returns_minus_one [of 1 gap "mk 1" 0] fa
    by (simp add: gap_def mk_def)
  moreover have "get_list_array_index twice (Particle (mk 0)) = Inr (Located 0 0)"
    using identity_lookup_returns_minus_one [of 0 twice "mk 0" 0] fa
    by (simp add: twice_eq mk_def)
  ultimately show ?thesis using fa by simp
qed

text \<open>
  Lookups that return \<open>-1\<close>: an identity that no record has, an identity that two records
  have, and a particle whose identity lies in the range of a bracket that does not hold it.
\<close>

theorem identity_lookup_sentinel:
  "get_list_array_index_by_PID one_and_three 7 = Minus_One
   \<and> twice = pset_add (ParticleSet [mk 0]) (ParticleSet [mk 0])
   \<and> get_list_array_index_by_PID twice 0 = Minus_One
   \<and> remove_particles (ParticleSet [mk 0, mk 1, mk 2]) (Scalar 1) = Some (Inr gap)
   \<and> get_list_array_index gap (Particle (mk 1)) = Inr Minus_One"
proof -
  have "get_list_array_index_by_PID one_and_three 7 = Minus_One"
    by (simp add: one_and_three_eq get_list_array_index_by_PID_def located_particle_def mk_def)
  moreover have "get_list_array_index_by_PID twice 0 = Minus_One"
    by (simp add: twice_eq get_list_array_index_by_PID_def located_particle_def mk_def)
  moreover have "get_list_array_index gap (Particle (mk 1)) = Inr Minus_One"
    by (simp add: gap_def get_list_array_index_def bracket_loop.simps slot_loop.simps
        store_defs mk_def)
  ultimately show ?thesis using gap_reached by (simp add: twice_def)
qed

section \<open>What \<open>pop\<close> returns\<close>

text \<open>The number of slot indices an argument of \<open>pop\<close> names, each as often as it is named.\<close>

definition entry_count :: "local_indices option \<Rightarrow> nat" where
  "entry_count e =
     (case e of
        None \<Rightarrow> 0
      | Some (Slot k) \<Rightarrow> 1
      | Some (Slots ks) \<Rightarrow> length ks
      | Some (Array ks) \<Rightarrow> length ks)"

definition requests :: "indices \<Rightarrow> nat" where
  "requests indices =
     (case indices of
        Scalar g \<Rightarrow> 1
      | NdArray gs \<Rightarrow> length gs
      | PyList l \<Rightarrow> sum_list (map entry_count l))"

definition collected :: "removed option \<Rightarrow> nat" where
  "collected result =
     (case result of None \<Rightarrow> 0 | Some (Record p) \<Rightarrow> 1 | Some (Records ps) \<Rightarrow> length ps)"

lemma remove_slots_take:
  assumes "remove_slots s b li = Inr (r, s')"
  shows "\<exists>bracket. np_take bracket li = Inr r"
  using assms
  by (cases "list_get (plist s) b"; cases "np_take (projr (list_get (plist s) b)) li")
     (auto simp: remove_slots_def bind_err_def Let_def split: if_splits sum.splits)

lemma entry_count_simps:
  "entry_count None = 0"
  "entry_count (Some (Slot k)) = 1"
  "entry_count (Some (Slots ks)) = length ks"
  "entry_count (Some (Array ks)) = length ks"
  by (simp_all add: entry_count_def)

text \<open>
  An integer gives one record, a list or an array of slot indices an array of as many
  records as it has indices.
\<close>

lemma np_take_shape:
  assumes "np_take bracket li = Inr r"
  shows "(\<exists>k p. li = Slot k \<and> r = Record p) \<or>
         (\<exists>ps. r = Records ps \<and> (\<forall>k. li \<noteq> Slot k) \<and> length ps = entry_count (Some li))"
  using assms
  by (cases li)
     (auto simp: np_take_def bind_err_def entry_count_simps split: sum.splits if_splits)

lemma remove_slots_shape:
  assumes "remove_slots s b li = Inr (r, s')"
  shows "(\<exists>k p. li = Slot k \<and> r = Record p) \<or>
         (\<exists>ps. r = Records ps \<and> (\<forall>k. li \<noteq> Slot k) \<and> length ps = entry_count (Some li))"
proof -
  from remove_slots_take [OF assms] obtain bracket where "np_take bracket li = Inr r" ..
  then show ?thesis by (rule np_take_shape)
qed

lemma all_none_count:
  assumes "list_all (\<lambda>e. e = None) es"
  shows "sum_list (map entry_count es) = 0"
  using assms by (induction es) (simp_all add: entry_count_simps)

text \<open>Once \<open>result\<close> is a single record, the loop can only pass entries that are \<open>None\<close>.\<close>

lemma pop_loop_record:
  "pop_loop s b es (Some (Record p)) = Inr (res, s') \<Longrightarrow>
     res = Some (Record p) \<and> list_all (\<lambda>e. e = None) es"
proof (induction es arbitrary: s b)
  case Nil
  then show ?case by simp
next
  case (Cons e es)
  show ?case
  proof (cases e)
    case None
    with Cons show ?thesis by simp
  next
    case (Some li)
    with Cons.prems show ?thesis
      by (auto simp: np_concatenate_def split: sum.splits prod.splits)
  qed
qed

lemma pop_loop_records:
  "pop_loop s b es (Some (Records xs)) = Inr (res, s') \<Longrightarrow>
     \<exists>ys. res = Some (Records ys) \<and> length ys = length xs + sum_list (map entry_count es)"
proof (induction es arbitrary: s b xs)
  case Nil
  then show ?case by auto
next
  case (Cons e es)
  show ?case
  proof (cases e)
    case None
    with Cons show ?thesis by (simp add: entry_count_simps)
  next
    case (Some li)
    from Cons.prems Some obtain r s1 where rm: "remove_slots s b li = Inr (r, s1)"
      by (auto split: sum.splits)
    from Cons.prems Some rm obtain acc where cc: "np_concatenate (Records xs) r = Inr acc"
      and rest: "pop_loop s1 (b + 1) es (Some acc) = Inr (res, s')"
      by (auto split: sum.splits)
    from cc obtain ps where r: "r = Records ps" and acc: "acc = Records (xs @ ps)"
      by (cases r) (auto simp: np_concatenate_def)
    from remove_slots_shape [OF rm] r have len: "length ps = entry_count (Some li)"
      by auto
    from Cons.IH [OF rest [unfolded acc]] obtain ys where "res = Some (Records ys)"
      and "length ys = length (xs @ ps) + sum_list (map entry_count es)" by blast
    then show ?thesis using Some len by simp
  qed
qed

lemma pop_loop_none:
  "pop_loop s b es None = Inr (res, s') \<Longrightarrow>
     collected res = sum_list (map entry_count es) \<and>
     (res = None \<longleftrightarrow> list_all (\<lambda>e. e = None) es)"
proof (induction es arbitrary: s b)
  case Nil
  then show ?case by (simp add: collected_def)
next
  case (Cons e es)
  show ?case
  proof (cases e)
    case None
    with Cons show ?thesis by (simp add: entry_count_simps)
  next
    case (Some li)
    from Cons.prems Some obtain r s1 where rm: "remove_slots s b li = Inr (r, s1)"
      and rest: "pop_loop s1 (b + 1) es (Some r) = Inr (res, s')"
      by (auto split: sum.splits)
    show ?thesis
    proof (cases r)
      case (Record p)
      from remove_slots_shape [OF rm] Record obtain k where li: "li = Slot k"
        by auto
      from pop_loop_record [OF rest [unfolded Record]]
      have "res = Some (Record p)" and "list_all (\<lambda>e. e = None) es" by simp_all
      moreover from this(2) have "sum_list (map entry_count es) = 0"
        by (rule all_none_count)
      ultimately show ?thesis using Some li by (simp add: collected_def entry_count_simps)
    next
      case (Records ps)
      from remove_slots_shape [OF rm] Records have len: "length ps = entry_count (Some li)"
        by auto
      from pop_loop_records [OF rest [unfolded Records]] obtain ys
        where "res = Some (Records ys)"
          and "length ys = length ps + sum_list (map entry_count es)" by blast
      then show ?thesis using Some len by (simp add: collected_def)
    qed
  qed
qed

lemma wrap_loop_returns:
  assumes "0 < n"
  shows "wrap_loop n g \<noteq> None"
proof (induction "nat (- g)" arbitrary: g rule: less_induct)
  case less
  show ?case
  proof (cases "g < 0")
    case False
    then show ?thesis by (simp add: wrap_loop_nonneg)
  next
    case True
    with assms have "nat (- (n + g)) < nat (- g)" by simp
    then have "wrap_loop n (n + g) \<noteq> None" by (rule less)
    with True show ?thesis by (subst wrap_loop.simps) simp
  qed
qed

lemma index_lists_returns:
  assumes "0 < n \<or> list_all (\<lambda>g. 0 \<le> g) gs"
  shows "index_lists s n gs l \<noteq> None"
  using assms
proof (induction gs arbitrary: l)
  case Nil
  then show ?case by simp
next
  case (Cons g gs)
  have "wrap_loop n g \<noteq> None"
  proof (cases "0 < n")
    case True
    then show ?thesis by (rule wrap_loop_returns)
  next
    case False
    with Cons.prems have "0 \<le> g" by simp
    then show ?thesis by (simp add: wrap_loop_nonneg)
  qed
  then obtain g' where g': "wrap_loop n g = Some g'" by auto
  from Cons.prems have "0 < n \<or> list_all (\<lambda>g. 0 \<le> g) gs" by auto
  then have "index_lists s n gs l' \<noteq> None" for l' by (rule Cons.IH)
  with g' show ?case by (auto split: sum.splits prod.splits)
qed

text \<open>The global indices an argument names (none for a Python list).\<close>

definition global_indices :: "indices \<Rightarrow> int list" where
  "global_indices indices =
     (case indices of Scalar g \<Rightarrow> [g] | NdArray gs \<Rightarrow> gs | PyList l \<Rightarrow> [])"

lemma local_index_lists_returns:
  assumes "0 < pset_size s \<or> list_all (\<lambda>g. 0 \<le> g) (global_indices indices)"
  shows "local_index_lists s indices \<noteq> None"
proof (cases indices)
  case (PyList l)
  then show ?thesis by (simp add: local_index_lists_def)
next
  case (Scalar g)
  with assms have "index_lists s (int (pset_size s)) [g] l \<noteq> None" for l
    by (intro index_lists_returns) (auto simp: global_indices_def)
  with Scalar show ?thesis
    by (auto simp: local_index_lists_def split: option.splits sum.splits)
next
  case (NdArray gs)
  with assms have "index_lists s (int (pset_size s)) gs l \<noteq> None" for l
    by (intro index_lists_returns) (auto simp: global_indices_def)
  with NdArray show ?thesis
    by (auto simp: local_index_lists_def split: option.splits sum.splits)
qed

lemma pop_returns:
  assumes "0 < pset_size s \<or> list_all (\<lambda>g. 0 \<le> g) (global_indices indices)"
  shows "pop s indices \<noteq> None"
  using local_index_lists_returns [OF assms]
  by (auto simp: pop_def split: option.splits sum.splits)

definition list_count :: "int list option \<Rightarrow> nat" where
  "list_count e = (case e of None \<Rightarrow> 0 | Some l \<Rightarrow> length l)"

lemma sum_list_count_update:
  assumes "b < length l"
  shows "sum_list (map list_count
           (l[b := Some (case l ! b of None \<Rightarrow> [k] | Some x \<Rightarrow> x @ [k])])) =
         sum_list (map list_count l) + 1"
proof -
  have new: "list_count (Some (case l ! b of None \<Rightarrow> [k] | Some x \<Rightarrow> x @ [k])) =
      list_count (l ! b) + 1"
    by (cases "l ! b") (simp_all add: list_count_def)
  have "map list_count (l[b := Some (case l ! b of None \<Rightarrow> [k] | Some x \<Rightarrow> x @ [k])]) =
      (map list_count l)[b := list_count (l ! b) + 1]"
    by (simp add: map_update new)
  moreover have "sum_list ((map list_count l)[b := list_count (l ! b) + 1]) =
      sum_list (map list_count l) + (list_count (l ! b) + 1) - map list_count l ! b"
    using assms by (simp add: sum_list_update)
  ultimately show ?thesis using assms by simp
qed

lemma index_lists_count:
  assumes "index_lists s n gs l = Some (Inr l')"
  shows "sum_list (map list_count l') = sum_list (map list_count l) + length gs"
  using assms
proof (induction gs arbitrary: l)
  case Nil
  then show ?case by simp
next
  case (Cons g gs)
  from Cons.prems obtain g' b k where "wrap_loop n g = Some g'"
    and "global_index s g' = Inr (b, k)" and b: "b < length l"
    and rest: "index_lists s n gs
        (l[b := Some (case l ! b of None \<Rightarrow> [k] | Some x \<Rightarrow> x @ [k])]) = Some (Inr l')"
    by (auto split: option.splits sum.splits prod.splits if_splits)
  from Cons.IH [OF rest] sum_list_count_update [OF b] show ?case by simp
qed

lemma replicate_count: "sum_list (map list_count (replicate m None)) = 0"
  by (simp add: list_count_def)

lemma entry_count_Slots: "entry_count (map_option Slots e) = list_count e"
  by (cases e) (simp_all add: entry_count_simps list_count_def)

lemma local_index_lists_count:
  assumes "local_index_lists s indices = Some (Inr lindices)"
  shows "sum_list (map entry_count lindices) = requests indices"
proof (cases indices)
  case (PyList l)
  with assms show ?thesis by (simp add: local_index_lists_def requests_def)
next
  case (Scalar g)
  with assms obtain l' where l': "index_lists s (int (pset_size s)) [g]
      (replicate (length (plist s)) None) = Some (Inr l')"
    and lindices: "lindices = map (map_option Slots) l'"
    by (auto simp: local_index_lists_def split: option.splits sum.splits)
  from index_lists_count [OF l', unfolded replicate_count]
  have "sum_list (map list_count l') = 1" by simp
  then show ?thesis
    using Scalar lindices by (simp add: requests_def o_def entry_count_Slots)
next
  case (NdArray gs)
  with assms obtain l' where l': "index_lists s (int (pset_size s)) gs
      (replicate (length (plist s)) None) = Some (Inr l')"
    and lindices: "lindices = map (map_option Slots) l'"
    by (auto simp: local_index_lists_def split: option.splits sum.splits)
  from index_lists_count [OF l', unfolded replicate_count]
  have "sum_list (map list_count l') = length gs" by simp
  then show ?thesis
    using NdArray lindices by (simp add: requests_def o_def entry_count_Slots)
qed

text \<open>
  Whether the argument has an entry for a bracket at all: an integer and a non-empty
  array of global indices have, a Python list has when an entry is not \<open>None\<close>.
\<close>

definition no_entry :: "indices \<Rightarrow> bool" where
  "no_entry indices =
     (case indices of
        Scalar g \<Rightarrow> False
      | NdArray gs \<Rightarrow> gs = []
      | PyList l \<Rightarrow> list_all (\<lambda>e. e = None) l)"

lemma all_none_list_count:
  assumes "list_all (\<lambda>e. e = None) l"
  shows "sum_list (map list_count l) = 0"
  using assms by (induction l) (simp_all add: list_count_def)

lemma local_index_lists_no_entry:
  assumes "local_index_lists s indices = Some (Inr lindices)"
  shows "list_all (\<lambda>e. e = None) lindices \<longleftrightarrow> no_entry indices"
proof (cases indices)
  case (PyList l)
  with assms show ?thesis by (simp add: local_index_lists_def no_entry_def)
next
  case (Scalar g)
  with assms obtain l' where l': "index_lists s (int (pset_size s)) [g]
      (replicate (length (plist s)) None) = Some (Inr l')"
    and lindices: "lindices = map (map_option Slots) l'"
    by (auto simp: local_index_lists_def split: option.splits sum.splits)
  from index_lists_count [OF l', unfolded replicate_count]
  have "sum_list (map list_count l') = 1" by simp
  with all_none_list_count [of l'] have "\<not> list_all (\<lambda>e. e = None) l'" by auto
  then show ?thesis using Scalar lindices by (simp add: no_entry_def list_all_iff)
next
  case (NdArray gs)
  with assms obtain l' where l': "index_lists s (int (pset_size s)) gs
      (replicate (length (plist s)) None) = Some (Inr l')"
    and lindices: "lindices = map (map_option Slots) l'"
    by (auto simp: local_index_lists_def split: option.splits sum.splits)
  show ?thesis
  proof (cases "gs = []")
    case True
    with l' have "l' = replicate (length (plist s)) None" by simp
    then show ?thesis using NdArray True lindices by (simp add: no_entry_def list_all_iff)
  next
    case False
    from index_lists_count [OF l', unfolded replicate_count]
    have "sum_list (map list_count l') = length gs" by simp
    with False all_none_list_count [of l'] have "\<not> list_all (\<lambda>e. e = None) l'" by auto
    then show ?thesis using NdArray False lindices by (simp add: no_entry_def list_all_iff)
  qed
qed

text \<open>
  With an integer among the entries of a Python list, \<open>result\<close> ends as a single record,
  which has no \<open>tolist\<close>: \<open>pop\<close> raises, after \<open>_remove_\<close> has run.
\<close>

lemma pop_loop_integer_entry:
  "pop_loop s b es acc = Inr (res, s') \<Longrightarrow> Some (Slot k) \<in> set es \<Longrightarrow>
     \<exists>p. res = Some (Record p)"
proof (induction es arbitrary: s b acc)
  case Nil
  then show ?case by simp
next
  case (Cons e es)
  show ?case
  proof (cases e)
    case None
    with Cons.prems have "pop_loop s (b + 1) es acc = Inr (res, s')"
      and "Some (Slot k) \<in> set es" by simp_all
    then show ?thesis by (rule Cons.IH)
  next
    case (Some li)
    from Cons.prems(1) Some obtain r s1 where rm: "remove_slots s b li = Inr (r, s1)"
      by (auto split: sum.splits)
    show ?thesis
    proof (cases acc)
      case None
      with Cons.prems(1) Some rm
      have rest: "pop_loop s1 (b + 1) es (Some r) = Inr (res, s')" by simp
      show ?thesis
      proof (cases "Some (Slot k) \<in> set es")
        case True
        with rest show ?thesis by (rule Cons.IH)
      next
        case False
        with Cons.prems(2) Some have "li = Slot k" by simp
        with remove_slots_shape [OF rm] obtain p where "r = Record p" by auto
        with pop_loop_record rest show ?thesis by blast
      qed
    next
      case (Some a)
      with Cons.prems(1) \<open>e = Some li\<close> rm obtain acc' where
        cc: "np_concatenate a r = Inr acc'" and
        rest: "pop_loop s1 (b + 1) es (Some acc') = Inr (res, s')"
        by (auto split: sum.splits)
      from cc obtain ps where "r = Records ps"
        by (cases a; cases r) (auto simp: np_concatenate_def)
      with remove_slots_shape [OF rm] have "li \<noteq> Slot k" by auto
      with Cons.prems(2) \<open>e = Some li\<close> have "Some (Slot k) \<in> set es" by simp
      with rest show ?thesis by (rule Cons.IH)
    qed
  qed
qed

lemma pop_integer_entry_raises:
  assumes "Some (Slot k) \<in> set l"
  shows "\<exists>e. pop s (PyList l) = Some (Inl e)"
proof (cases "pop_loop s 0 l None")
  case (Inl e)
  then show ?thesis by (simp add: pop_def local_index_lists_def bind_err_def)
next
  case (Inr x)
  then obtain res s1 where loop: "pop_loop s 0 l None = Inr (res, s1)" by (cases x) auto
  from pop_loop_integer_entry [OF loop assms] obtain p where "res = Some (Record p)" by blast
  then have "pop_result res = Inl AttributeError" by (simp add: pop_result_def)
  with loop show ?thesis
    by (cases "merge_brackets s1") (simp_all add: pop_def local_index_lists_def bind_err_def)
qed

text \<open>
  Claim C10, as the code has it. \<open>pop\<close> returns whenever the population is not empty or
  no requested index is negative. When it returns a value, the shape of the value depends
  on the number of slot indices requested, each counted as often as it is named (that
  many records are collected from \<open>_remove_\<close>): \<open>None\<close> when the argument has no entry for
  any bracket, the empty list when it has an entry but names no slot index (an empty
  array of integers in a Python list), the bare record when it names one, and the list of
  that many records when it names several.
\<close>

theorem pop_shape:
  "(0 < pset_size s \<or> list_all (\<lambda>g. 0 \<le> g) (global_indices indices) \<longrightarrow>
      pop s indices \<noteq> None)
   \<and> (pop s indices = Some (Inr (r, s')) \<longrightarrow>
        (no_entry indices \<longrightarrow> r = Nothing) \<and>
        (\<not> no_entry indices \<and> requests indices = 0 \<longrightarrow> r = Many []) \<and>
        (requests indices = 1 \<longrightarrow> (\<exists>p. r = One p)) \<and>
        (1 < requests indices \<longrightarrow> (\<exists>ps. r = Many ps \<and> length ps = requests indices)))"
proof (intro conjI impI)
  assume "0 < pset_size s \<or> list_all (\<lambda>g. 0 \<le> g) (global_indices indices)"
  then show "pop s indices \<noteq> None" by (rule pop_returns)
next
  assume ret: "pop s indices = Some (Inr (r, s'))"
  then obtain lindices res s1 where li: "local_index_lists s indices = Some (Inr lindices)"
    and loop: "pop_loop s 0 lindices None = Inr (res, s1)"
    and shape: "pop_result res = Inr r"
    by (auto simp: pop_def bind_err_def split: option.splits sum.splits if_splits prod.splits)
  from pop_loop_none [OF loop] local_index_lists_count [OF li]
    local_index_lists_no_entry [OF li]
  have count: "collected res = requests indices" and none: "res = None \<longleftrightarrow> no_entry indices"
    by simp_all
  have cases: "(res = None \<and> r = Nothing) \<or>
      (\<exists>ps. res = Some (Records ps) \<and>
         r = (if length ps = 1 then One (ps ! 0) else Many ps))"
  proof (cases res)
    case None
    with shape show ?thesis by (simp add: pop_result_def)
  next
    case (Some x)
    with shape show ?thesis by (cases x) (auto simp: pop_result_def)
  qed
  {
    assume "no_entry indices"
    with none cases show "r = Nothing" by auto
  next
    assume "\<not> no_entry indices \<and> requests indices = 0"
    with none count cases show "r = Many []" by (auto simp: collected_def)
  next
    assume "requests indices = 1"
    with count cases show "\<exists>p. r = One p" by (auto simp: collected_def)
  next
    assume "1 < requests indices"
    with count cases show "\<exists>ps. r = Many ps \<and> length ps = requests indices"
      by (auto simp: collected_def)
  }
qed

lemma pop_two_and_two_pair:
  "pop two_and_two (NdArray [2, 0]) =
     Some (Inr (Many [mk 0, mk 2],
       \<lparr>plist = [[mk 1, mk 3]], pid_mapping_bounds = [(1, 3, 2)], nlist_limit = 4096\<rparr>))"
  by (simp add: two_and_two_eq store_defs mk_def)

lemma pop_two_and_two_none:
  "pop two_and_two (NdArray []) =
     Some (Inr (Nothing,
       \<lparr>plist = [[mk 0, mk 1, mk 2, mk 3]], pid_mapping_bounds = [(0, 3, 4)],
        nlist_limit = 4096\<rparr>))"
  by (simp add: two_and_two_eq store_defs mk_def)

lemma pop_two_and_two_twice:
  "pop two_and_two (NdArray [0, 0]) =
     Some (Inr (Many [mk 0, mk 0],
       \<lparr>plist = [[mk 1, mk 2, mk 3]], pid_mapping_bounds = [(1, 3, 3)],
        nlist_limit = 4096\<rparr>))"
  by (simp add: two_and_two_eq store_defs mk_def)

lemma pop_two_and_two_empty_array:
  "pop two_and_two (PyList [Some (Array []), None]) =
     Some (Inr (Many [],
       \<lparr>plist = [[mk 0, mk 1, mk 2, mk 3]], pid_mapping_bounds = [(0, 3, 4)],
        nlist_limit = 4096\<rparr>))"
  by (simp add: two_and_two_eq store_defs mk_def)

lemma pop_two_and_two_lists:
  "pop two_and_two (PyList [Some (Slots [1]), Some (Array [0, 1])]) =
     Some (Inr (Many [mk 1, mk 2, mk 3],
       \<lparr>plist = [[mk 0]], pid_mapping_bounds = [(0, 0, 1)], nlist_limit = 4096\<rparr>))"
  by (simp add: two_and_two_eq store_defs mk_def)

theorem pop_shape_witness:
  "pop two_and_two (Scalar 3) \<noteq> None
   \<and> requests (Scalar 3) = 1
   \<and> (\<exists>p s'. pop two_and_two (Scalar 3) = Some (Inr (One p, s')))
   \<and> requests (NdArray [2, 0]) = 2
   \<and> (\<exists>ps s'. pop two_and_two (NdArray [2, 0]) = Some (Inr (Many ps, s')) \<and> length ps = 2)
   \<and> no_entry (NdArray [])
   \<and> (\<exists>s'. pop two_and_two (NdArray []) = Some (Inr (Nothing, s')))
   \<and> \<not> no_entry (PyList [Some (Array []), None])
   \<and> requests (PyList [Some (Array []), None]) = 0
   \<and> (\<exists>s'. pop two_and_two (PyList [Some (Array []), None]) = Some (Inr (Many [], s')))
   \<and> requests (PyList [Some (Slots [1]), Some (Array [0, 1])]) = 3
   \<and> (\<exists>ps s'. pop two_and_two (PyList [Some (Slots [1]), Some (Array [0, 1])]) =
         Some (Inr (Many ps, s')) \<and> length ps = 3)"
proof -
  have r: "requests (Scalar 3) = 1" "requests (NdArray [2, 0]) = 2"
    "requests (PyList [Some (Array []), None]) = 0"
    "requests (PyList [Some (Slots [1]), Some (Array [0, 1])]) = 3"
    by (simp_all add: requests_def entry_count_simps)
  have n: "no_entry (NdArray [])" "\<not> no_entry (PyList [Some (Array []), None])"
    by (simp_all add: no_entry_def)
  have "pop two_and_two (Scalar 3) \<noteq> None"
    using pop_shape [of two_and_two "Scalar 3"] by (simp add: global_indices_def)
  moreover have "\<exists>p s'. pop two_and_two (Scalar 3) = Some (Inr (One p, s'))"
    using pop_shape [of two_and_two "Scalar 3" "One (mk 3)"] pop_last_two_and_two r by simp
  moreover have
    "\<exists>ps s'. pop two_and_two (NdArray [2, 0]) = Some (Inr (Many ps, s')) \<and> length ps = 2"
    using pop_shape [of two_and_two "NdArray [2, 0]" "Many [mk 0, mk 2]"] pop_two_and_two_pair r
    by simp
  moreover have "\<exists>s'. pop two_and_two (NdArray []) = Some (Inr (Nothing, s'))"
    using pop_shape [of two_and_two "NdArray []" Nothing] pop_two_and_two_none n by simp
  moreover have
    "\<exists>s'. pop two_and_two (PyList [Some (Array []), None]) = Some (Inr (Many [], s'))"
    using pop_shape [of two_and_two "PyList [Some (Array []), None]" "Many []"]
      pop_two_and_two_empty_array r n by simp
  moreover have
    "\<exists>ps s'. pop two_and_two (PyList [Some (Slots [1]), Some (Array [0, 1])]) =
       Some (Inr (Many ps, s')) \<and> length ps = 3"
    using pop_shape [of two_and_two "PyList [Some (Slots [1]), Some (Array [0, 1])]"
        "Many [mk 1, mk 2, mk 3]"] pop_two_and_two_lists r by simp
  ultimately show ?thesis using r n by simp
qed

text \<open>
  A request that names global index 0 twice: one particle leaves the store of four, and
  \<open>pop\<close> returns a list of two records, the same record twice. A Python list with an
  empty array of integers for bracket 0: no particle leaves the store, and \<open>pop\<close> returns
  the empty list.
\<close>

theorem pop_shape_not_by_removals:
  "pset_size two_and_two = 4
   \<and> pop two_and_two (NdArray [0, 0]) =
       Some (Inr (Many [mk 0, mk 0],
         \<lparr>plist = [[mk 1, mk 2, mk 3]], pid_mapping_bounds = [(1, 3, 3)],
          nlist_limit = 4096\<rparr>))
   \<and> pset_size \<lparr>plist = [[mk 1, mk 2, mk 3]], pid_mapping_bounds = [(1, 3, 3)],
        nlist_limit = 4096\<rparr> = 3
   \<and> pop two_and_two (PyList [Some (Array []), None]) =
       Some (Inr (Many [],
         \<lparr>plist = [[mk 0, mk 1, mk 2, mk 3]], pid_mapping_bounds = [(0, 3, 4)],
          nlist_limit = 4096\<rparr>))
   \<and> pset_size \<lparr>plist = [[mk 0, mk 1, mk 2, mk 3]], pid_mapping_bounds = [(0, 3, 4)],
        nlist_limit = 4096\<rparr> = 4"
  using pop_two_and_two_twice pop_two_and_two_empty_array
  by (simp add: two_and_two_eq store_defs)

section \<open>The order of the records \<open>pop\<close> returns\<close>












lemma map_upt_update:
  assumes "b < n"
  shows "(map f [0..<n])[b := x] = map (f(b := x)) [0..<n]"
  using assms by (intro nth_equalityI) (auto simp: nth_list_update)






























section \<open>\<open>execute\<close>: the stepping loop\<close>

text \<open>
  Times are Python floats: a number, \<open>np.infty\<close>, \<open>-np.infty\<close>, or the result of an
  undefined operation. Numbers are reals here; comparisons with \<open>NaN\<close> are false, as in
  Python.
\<close>

datatype xreal = Fin real | PInf | MInf | NaN

fun xless :: "xreal \<Rightarrow> xreal \<Rightarrow> bool" where
  "xless (Fin x) (Fin y) = (x < y)"
| "xless (Fin x) PInf = True"
| "xless MInf (Fin y) = True"
| "xless MInf PInf = True"
| "xless a b = False"

fun xadd :: "xreal \<Rightarrow> xreal \<Rightarrow> xreal" where
  "xadd (Fin x) (Fin y) = Fin (x + y)"
| "xadd NaN b = NaN"
| "xadd a NaN = NaN"
| "xadd PInf MInf = NaN"
| "xadd MInf PInf = NaN"
| "xadd PInf b = PInf"
| "xadd a PInf = PInf"
| "xadd MInf b = MInf"
| "xadd a MInf = MInf"

fun xneg :: "xreal \<Rightarrow> xreal" where
  "xneg (Fin x) = Fin (- x)"
| "xneg PInf = MInf"
| "xneg MInf = PInf"
| "xneg NaN = NaN"

definition xsub :: "xreal \<Rightarrow> xreal \<Rightarrow> xreal" where
  "xsub a b = xadd a (xneg b)"

text \<open>The product with \<open>np.sign(dt)\<close>, which is -1, 0 or 1.\<close>

fun xtimes :: "xreal \<Rightarrow> real \<Rightarrow> xreal" where
  "xtimes (Fin x) r = Fin (x * r)"
| "xtimes PInf r = (if 0 < r then PInf else if r < 0 then MInf else NaN)"
| "xtimes MInf r = (if 0 < r then MInf else if r < 0 then PInf else NaN)"
| "xtimes NaN r = NaN"

text \<open>\<open>abs(a - b) < tol\<close>: false as soon as one side is not a number.\<close>

fun xclose :: "real \<Rightarrow> xreal \<Rightarrow> xreal \<Rightarrow> bool" where
  "xclose tol (Fin x) (Fin y) = (\<bar>x - y\<bar> < tol)"
| "xclose tol a b = False"

text \<open>Python's \<open>min\<close> and \<open>max\<close> of several arguments: the first one that no later one beats.\<close>

fun py_min :: "xreal \<Rightarrow> xreal list \<Rightarrow> xreal" where
  "py_min r [] = r"
| "py_min r (x # xs) = py_min (if xless x r then x else r) xs"

fun py_max :: "xreal \<Rightarrow> xreal list \<Rightarrow> xreal" where
  "py_max r [] = r"
| "py_max r (x # xs) = py_max (if xless r x then x else r) xs"

text \<open>
  What the loop calls, in the order of the calls: the kernel, the output file, the
  animation, the callbacks, the field set, and the release of a new set.
\<close>

datatype event =
  Kernel_execute xreal real bool
  | Write xreal
  | Show_frame xreal
  | Callbacks
  | Compute_time_chunk xreal real
  | Release xreal

text \<open>
  The collaborators of the set, which are not part of this file: the time range of the
  field set (\<open>gridset.dimrange('time_full')\<close>), \<open>fieldset.computeTimeChunk\<close>, what
  \<open>kernel.execute\<close> does to the particles, and the particles of a repeated release at a
  given time (the constructor call of the loop, with the identities the particle class
  hands out).
\<close>

record collaborators =
  mintime :: real
  maxtime :: real
  compute_time_chunk :: "xreal \<Rightarrow> real \<Rightarrow> xreal"
  kernel_execute :: "pset \<Rightarrow> xreal \<Rightarrow> real \<Rightarrow> bool \<Rightarrow> pset"
  released :: "xreal \<Rightarrow> particle list"

text \<open>
  The arguments of \<open>execute\<close>, in seconds (after the conversions at the head of the
  method). \<open>output_file\<close> is the \<open>outputdt\<close> of the file, if there is a file;
  \<open>callbacks\<close> says whether \<open>postIterationCallbacks\<close> is given.
\<close>

record arguments =
  endtime :: "real option"
  runtime :: "real option"
  dt :: real
  moviedt :: "real option"
  output_file :: "xreal option"
  callbackdt :: "real option"
  callbacks :: bool

text \<open>
  The set with its repeat-release attributes. The constructor sets \<open>repeat_starttime\<close>
  only when \<open>repeatdt\<close> is truthy: \<open>None\<close> is a set without the attribute, \<open>Some None\<close>
  the attribute with the value \<open>None\<close>.
\<close>

record population =
  store :: pset
  repeatdt :: "real option"
  repeat_starttime :: "real option option"

text \<open>The variables of the loop.\<close>

record schedule =
  pop_now :: population
  now :: xreal
  next_prelease :: xreal
  next_input :: xreal
  next_output :: xreal
  next_movie :: xreal
  next_callback :: xreal
  events :: "event list"

definition tol :: real where
  "tol = 1 / 10 ^ 12"

definition set_dt :: "real \<Rightarrow> pset \<Rightarrow> pset" where
  "set_dt d s = s\<lparr>plist := map (map (\<lambda>p. p\<lparr>pdt := d\<rparr>)) (plist s)\<rparr>"

text \<open>
  The body of the \<open>while\<close> loop, block by block, with \<open>dt\<close>, \<open>endtime\<close>, \<open>outputdt\<close>,
  \<open>moviedt\<close>, \<open>callbackdt\<close> and \<open>execute_once\<close> as they are when the loop starts.

  \<^verbatim>\<open>
  if dt > 0:
      time = min(next_prelease, next_input, next_output, next_movie, next_callback, endtime)
  else:
      time = max(next_prelease, next_input, next_output, next_movie, next_callback, endtime)
  self.kernel.execute(self, endtime=time, dt=dt, recovery=recovery, output_file=output_file, execute_once=execute_once)\<close>
\<close>

definition kernel_step :: "collaborators \<Rightarrow> real \<Rightarrow> real \<Rightarrow> bool \<Rightarrow> schedule \<Rightarrow> schedule" where
  "kernel_step env d endt once st =
     (let t = (if 0 < d
               then py_min (next_prelease st)
                      [next_input st, next_output st, next_movie st, next_callback st, Fin endt]
               else py_max (next_prelease st)
                      [next_input st, next_output st, next_movie st, next_callback st, Fin endt])
      in st\<lparr>now := t,
            pop_now := (pop_now st)\<lparr>store := kernel_execute env (store (pop_now st)) t d once\<rparr>,
            events := events st @ [Kernel_execute t d once]\<rparr>)"

text \<open>
  \<^verbatim>\<open>if abs(time-next_prelease) < tol:\<close> a new set is built at \<open>time\<close>, its particles get
  \<open>dt\<close>, and it is added. \<open>next_prelease\<close> is a number only for a set with \<open>repeatdt\<close>.
\<close>

definition release_step :: "collaborators \<Rightarrow> real \<Rightarrow> schedule \<Rightarrow> schedule" where
  "release_step env d st =
     (if xclose tol (now st) (next_prelease st)
      then st\<lparr>pop_now := (pop_now st)\<lparr>store :=
                 pset_add (store (pop_now st)) (set_dt d (ParticleSet (released env (now st))))\<rparr>,
              next_prelease := xadd (next_prelease st)
                (case repeatdt (pop_now st) of None \<Rightarrow> NaN | Some r \<Rightarrow> Fin (r * sgn d)),
              events := events st @ [Release (now st)]\<rparr>
      else st)"

text \<open>\<^verbatim>\<open>if abs(time-next_output) < tol:\<close>\<close>

definition output_step :: "arguments \<Rightarrow> real \<Rightarrow> xreal \<Rightarrow> schedule \<Rightarrow> schedule" where
  "output_step args d outdt st =
     (if xclose tol (now st) (next_output st)
      then st\<lparr>next_output := xadd (next_output st) (xtimes outdt (sgn d)),
              events := events st @ (if output_file args \<noteq> None then [Write (now st)] else [])\<rparr>
      else st)"

text \<open>\<^verbatim>\<open>if abs(time-next_movie) < tol:\<close>\<close>

definition movie_step :: "real \<Rightarrow> xreal \<Rightarrow> schedule \<Rightarrow> schedule" where
  "movie_step d mdt st =
     (if xclose tol (now st) (next_movie st)
      then st\<lparr>next_movie := xadd (next_movie st) (xtimes mdt (sgn d)),
              events := events st @ [Show_frame (now st)]\<rparr>
      else st)"

text \<open>\<^verbatim>\<open>if abs(time-next_callback) < tol:\<close>\<close>

definition callback_step :: "arguments \<Rightarrow> real \<Rightarrow> xreal \<Rightarrow> schedule \<Rightarrow> schedule" where
  "callback_step args d cdt st =
     (if xclose tol (now st) (next_callback st)
      then st\<lparr>next_callback := xadd (next_callback st) (xtimes cdt (sgn d)),
              events := events st @ (if callbacks args then [Callbacks] else [])\<rparr>
      else st)"

text \<open>\<^verbatim>\<open>if time != endtime: next_input = self.fieldset.computeTimeChunk(time, dt)\<close>\<close>

definition input_step :: "collaborators \<Rightarrow> real \<Rightarrow> real \<Rightarrow> schedule \<Rightarrow> schedule" where
  "input_step env d endt st =
     (if now st \<noteq> Fin endt
      then st\<lparr>next_input := compute_time_chunk env (now st) d,
              events := events st @ [Compute_time_chunk (now st) d]\<rparr>
      else st)"

definition loop_body ::
  "collaborators \<Rightarrow> arguments \<Rightarrow> real \<Rightarrow> real \<Rightarrow> xreal \<Rightarrow> xreal \<Rightarrow> xreal \<Rightarrow> bool \<Rightarrow>
     schedule \<Rightarrow> schedule" where
  "loop_body env args d endt outdt mdt cdt once st =
     input_step env d endt
       (callback_step args d cdt
         (movie_step d mdt
           (output_step args d outdt
             (release_step env d
               (kernel_step env d endt once st)))))"

text \<open>
  \<^verbatim>\<open>while (time < endtime and dt > 0) or (time > endtime and dt < 0) or dt == 0:\<close>
  with \<open>break\<close> at the end of the body when \<open>dt == 0\<close>. Nothing bounds the number of
  passes when \<open>dt\<close> is not 0; a run that does not end is the value \<open>None\<close>.
\<close>

partial_function (option) exec_loop ::
  "collaborators \<Rightarrow> arguments \<Rightarrow> real \<Rightarrow> real \<Rightarrow> xreal \<Rightarrow> xreal \<Rightarrow> xreal \<Rightarrow> bool \<Rightarrow>
     schedule \<Rightarrow> schedule option" where
  "exec_loop env args d endt outdt mdt cdt once st =
     (if (xless (now st) (Fin endt) \<and> 0 < d) \<or> (xless (Fin endt) (now st) \<and> d < 0) \<or> d = 0
      then (if d = 0 then Some (loop_body env args d endt outdt mdt cdt once st)
            else exec_loop env args d endt outdt mdt cdt once
                   (loop_body env args d endt outdt mdt cdt once st))
      else Some st)"

declare exec_loop.simps [code]

subsection \<open>\<open>execute\<close>\<close>

text \<open>\<^verbatim>\<open>outputdt = output_file.outputdt if output_file else np.infty\<close>\<close>

definition output_dt :: "arguments \<Rightarrow> xreal" where
  "output_dt args = (case output_file args of None \<Rightarrow> PInf | Some file_dt \<Rightarrow> file_dt)"

text \<open>
  What stops \<open>execute\<close> before the loop, in the order of the source: the three
  assertions, \<open>RuntimeError\<close> when both \<open>runtime\<close> and \<open>endtime\<close> are given, \<open>min\<close> or \<open>max\<close>
  of an empty list, and the read of \<open>self.repeat_starttime\<close> on a set that has
  \<open>repeatdt\<close> but not the attribute.
\<close>

definition rejected :: "population \<Rightarrow> arguments \<Rightarrow> error option" where
  "rejected p args =
     (if (case runtime args of None \<Rightarrow> False | Some r \<Rightarrow> r < 0) then Some AssertionError
      else if \<not> (xless (Fin 0) (output_dt args) \<or> output_dt args = Fin 0)
        then Some AssertionError
      else if (case moviedt args of None \<Rightarrow> False | Some m \<Rightarrow> m < 0) then Some AssertionError
      else if runtime args \<noteq> None \<and> endtime args \<noteq> None then Some RuntimeError
      else if concat (plist (store p)) = [] then Some ValueError
      else if repeatdt p \<noteq> None \<and> repeat_starttime p = None then Some AttributeError
      else None)"

text \<open>
  \<^verbatim>\<open>_starttime = min([p.time ...]) if dt >= 0 else max([p.time ...])\<close>. Every particle
  has a time here: one without (\<open>NaN\<close>) is given \<open>mintime\<close> or \<open>maxtime\<close> first.
\<close>

definition start_time :: "population \<Rightarrow> arguments \<Rightarrow> real" where
  "start_time p args =
     (let times = map ptime (concat (plist (store p)))
      in if 0 \<le> dt args then Min (set times) else Max (set times))"

text \<open>\<open>endtime\<close> as derived from the arguments or the field set.\<close>

definition end_time :: "collaborators \<Rightarrow> population \<Rightarrow> arguments \<Rightarrow> real" where
  "end_time env p args =
     (case runtime args of
        Some r \<Rightarrow> start_time p args + r * sgn (dt args)
      | None \<Rightarrow> (case endtime args of
                   Some e \<Rightarrow> e
                 | None \<Rightarrow> if 0 \<le> dt args then maxtime env else mintime env))"

text \<open>\<^verbatim>\<open>if abs(endtime-_starttime) < 1e-5 or dt == 0 or runtime == 0:\<close>\<close>

definition execute_once :: "collaborators \<Rightarrow> population \<Rightarrow> arguments \<Rightarrow> bool" where
  "execute_once env p args =
     (\<bar>end_time env p args - start_time p args\<bar> < 1 / 10 ^ 5 \<or> dt args = 0 \<or>
      runtime args = Some 0)"

text \<open>\<open>dt\<close> and \<open>endtime\<close> after that test.\<close>

definition dt_used :: "collaborators \<Rightarrow> population \<Rightarrow> arguments \<Rightarrow> real" where
  "dt_used env p args = (if execute_once env p args then 0 else dt args)"

definition endtime_used :: "collaborators \<Rightarrow> population \<Rightarrow> arguments \<Rightarrow> real" where
  "endtime_used env p args =
     (if execute_once env p args then start_time p args else end_time env p args)"

definition movie_dt :: "arguments \<Rightarrow> xreal" where
  "movie_dt args = (case moviedt args of None \<Rightarrow> PInf | Some m \<Rightarrow> Fin m)"

text \<open>
  \<open>callbackdt\<close>: when not given, \<open>np.min\<close> of \<open>np.infty\<close>, \<open>moviedt\<close>, \<open>outputdt\<close> and, for a
  set with \<open>repeatdt\<close>, \<open>repeatdt\<close>.
\<close>

definition callback_dt :: "population \<Rightarrow> arguments \<Rightarrow> xreal" where
  "callback_dt p args =
     (case callbackdt args of
        Some c \<Rightarrow> Fin c
      | None \<Rightarrow> py_min PInf
          ([movie_dt args, output_dt args] @
           (case repeatdt p of None \<Rightarrow> [] | Some r \<Rightarrow> [Fin r])))"

text \<open>
  The first \<open>next_prelease\<close>:
  \<^verbatim>\<open>
  if self.repeatdt:
      next_prelease = self.repeat_starttime + (abs(time - self.repeat_starttime) // self.repeatdt + 1) * self.repeatdt * np.sign(dt)
  else:
      next_prelease = np.infty if dt > 0 else - np.infty\<close>
  with \<open>repeat_starttime\<close> set to the start time when it was \<open>None\<close>.
\<close>

definition first_prelease :: "population \<Rightarrow> real \<Rightarrow> real \<Rightarrow> xreal" where
  "first_prelease p starttime d =
     (case repeatdt p of
        None \<Rightarrow> if 0 < d then PInf else MInf
      | Some r \<Rightarrow>
          if r \<noteq> 0
          then (let rs = (case repeat_starttime p of Some (Some v) \<Rightarrow> v | _ \<Rightarrow> starttime)
                in Fin (rs + (of_int \<lfloor>\<bar>starttime - rs\<bar> / r\<rfloor> + 1) * r * sgn d))
          else if 0 < d then PInf else MInf)"

text \<open>
  The state in which the loop starts: every particle has the \<open>dt\<close> of the run, the first
  write and the first frame are done, and the next events are scheduled.
\<close>

definition initial :: "collaborators \<Rightarrow> population \<Rightarrow> arguments \<Rightarrow> schedule" where
  "initial env p args =
     (let starttime = start_time p args;
          d = dt_used env p args;
          t0 = Fin starttime;
          p1 = (if repeatdt p \<noteq> None \<and> repeat_starttime p = Some None
                then p\<lparr>repeat_starttime := Some (Some starttime)\<rparr> else p)
      in \<lparr>pop_now = p1\<lparr>store := set_dt d (store p1)\<rparr>,
          now = t0,
          next_prelease = first_prelease p starttime d,
          next_input = compute_time_chunk env t0 (sgn d),
          next_output = (if 0 < d then xadd t0 (output_dt args) else xsub t0 (output_dt args)),
          next_movie = (if 0 < d then xadd t0 (movie_dt args) else xsub t0 (movie_dt args)),
          next_callback =
            (if 0 < d then xadd t0 (callback_dt p args) else xsub t0 (callback_dt p args)),
          events =
            (if output_file args \<noteq> None then [Write t0] else []) @
            (case moviedt args of
               None \<Rightarrow> []
             | Some m \<Rightarrow> if m \<noteq> 0 then [Show_frame t0] else []) @
            [Compute_time_chunk t0 (sgn d)]\<rparr>)"

text \<open>
  \<open>execute\<close>, from the assertions on (the kernel is compiled and the arguments are in
  seconds); the progress bar is left out. After the loop the output file is written once
  more.
\<close>

definition execute ::
  "collaborators \<Rightarrow> population \<Rightarrow> arguments \<Rightarrow> (error + schedule) option" where
  "execute env p args =
     (case rejected p args of
        Some e \<Rightarrow> Some (Inl e)
      | None \<Rightarrow>
          (case exec_loop env args (dt_used env p args) (endtime_used env p args)
                  (output_dt args) (movie_dt args) (callback_dt p args)
                  (execute_once env p args) (initial env p args) of
             None \<Rightarrow> None
           | Some st \<Rightarrow>
               Some (Inr (st\<lparr>events := events st @
                 (if output_file args \<noteq> None then [Write (now st)] else [])\<rparr>))))"

text \<open>The number of calls of \<open>kernel.execute\<close> among the events.\<close>

fun is_kernel_call :: "event \<Rightarrow> bool" where
  "is_kernel_call (Kernel_execute t d once) = True"
| "is_kernel_call e = False"

definition kernel_calls :: "event list \<Rightarrow> nat" where
  "kernel_calls es = length (filter is_kernel_call es)"

definition timed :: "real \<Rightarrow> int \<Rightarrow> particle" where
  "timed t i = \<lparr>pid = i, lon = 0, ptime = t, pdt = 1\<rparr>"

text \<open>
  Collaborators that do nothing: a kernel that leaves the particles as they are, a field
  set that needs no further input, and a release of one particle with identity 2.
\<close>

definition still :: collaborators where
  "still = \<lparr>mintime = 0, maxtime = 100, compute_time_chunk = (\<lambda>t d. MInf),
            kernel_execute = (\<lambda>s t d once. s),
            released = (\<lambda>t. case t of Fin x \<Rightarrow> [timed x 2] | _ \<Rightarrow> [])\<rparr>"

text \<open>\<open>execute(dt=0)\<close>, every other argument at its default.\<close>

definition zero_dt :: arguments where
  "zero_dt = \<lparr>endtime = None, runtime = None, dt = 0, moviedt = None, output_file = None,
              callbackdt = None, callbacks = False\<rparr>"

text \<open>
  A set released at time 10 and to be released again every 5, to which a set of one
  particle at time 3 was added.
\<close>

definition late_release :: population where
  "late_release =
     \<lparr>store = pset_add (ParticleSet [timed 10 0]) (ParticleSet [timed 3 1]),
      repeatdt = Some 5, repeat_starttime = Some (Some 10)\<rparr>"

text \<open>A time that is a number not after \<open>s\<close>, or \<open>-np.infty\<close>.\<close>

fun at_most :: "real \<Rightarrow> xreal \<Rightarrow> bool" where
  "at_most s (Fin y) = (y \<le> s)"
| "at_most s MInf = True"
| "at_most s x = False"

text \<open>An interval that is not negative.\<close>

definition nonneg :: "xreal \<Rightarrow> bool" where
  "nonneg x = (xless (Fin 0) x \<or> x = Fin 0)"

text \<open>
  When a single-shot run cannot move the time: the first release is not after the start
  time, the field set asks for no input after it, and \<open>callbackdt\<close> is not negative.
\<close>

definition stays :: "collaborators \<Rightarrow> population \<Rightarrow> arguments \<Rightarrow> bool" where
  "stays env p args =
     ((case callbackdt args of None \<Rightarrow> True | Some c \<Rightarrow> 0 \<le> c) \<and>
      (case repeatdt p of
         None \<Rightarrow> True
       | Some r \<Rightarrow> 0 \<le> r \<and>
           (r = 0 \<or> (case repeat_starttime p of
                       Some (Some rs) \<Rightarrow> rs \<le> start_time p args
                     | _ \<Rightarrow> True))) \<and>
      \<not> xless (Fin (start_time p args))
           (compute_time_chunk env (Fin (start_time p args)) 0))"

text \<open>A time that is a number not before \<open>s\<close>, or \<open>np.infty\<close>.\<close>

fun at_least :: "real \<Rightarrow> xreal \<Rightarrow> bool" where
  "at_least s (Fin y) = (s \<le> y)"
| "at_least s PInf = True"
| "at_least s x = False"

text \<open>A set of two particles at time 3, without repeated release.\<close>

definition two_at_three :: population where
  "two_at_three =
     \<lparr>store = ParticleSet [timed 3 0, timed 3 1], repeatdt = None, repeat_starttime = None\<rparr>"

section \<open>A run that executes the kernel once\<close>

lemma exec_loop_once:
  "exec_loop env args 0 endt outdt mdt cdt once st =
     Some (loop_body env args 0 endt outdt mdt cdt once st)"
  by (subst exec_loop.simps) simp

lemma kernel_calls_append:
  "kernel_calls (xs @ ys) = kernel_calls xs + kernel_calls ys"
  by (simp add: kernel_calls_def)

lemma kernel_step_calls:
  "kernel_calls (events (kernel_step env d endt once st)) = kernel_calls (events st) + 1"
  by (simp add: kernel_step_def Let_def kernel_calls_def)

lemma release_step_calls:
  "kernel_calls (events (release_step env d st)) = kernel_calls (events st)"
  by (simp add: release_step_def kernel_calls_def)

lemma output_step_calls:
  "kernel_calls (events (output_step args d outdt st)) = kernel_calls (events st)"
  by (simp add: output_step_def kernel_calls_def)

lemma movie_step_calls:
  "kernel_calls (events (movie_step d mdt st)) = kernel_calls (events st)"
  by (simp add: movie_step_def kernel_calls_def)

lemma callback_step_calls:
  "kernel_calls (events (callback_step args d cdt st)) = kernel_calls (events st)"
  by (simp add: callback_step_def kernel_calls_def)

lemma input_step_calls:
  "kernel_calls (events (input_step env d endt st)) = kernel_calls (events st)"
  by (simp add: input_step_def kernel_calls_def)

lemma loop_body_kernel_calls:
  "kernel_calls (events (loop_body env args d endt outdt mdt cdt once st)) =
     kernel_calls (events st) + 1"
  unfolding loop_body_def
  by (simp only: input_step_calls callback_step_calls movie_step_calls output_step_calls
        release_step_calls kernel_step_calls)

lemma kernel_step_now:
  "now (kernel_step env d endt once st) =
     (if 0 < d
      then py_min (next_prelease st)
             [next_input st, next_output st, next_movie st, next_callback st, Fin endt]
      else py_max (next_prelease st)
             [next_input st, next_output st, next_movie st, next_callback st, Fin endt])"
  by (simp add: kernel_step_def Let_def)

lemma release_step_now: "now (release_step env d st) = now st"
  by (simp add: release_step_def)

lemma output_step_now: "now (output_step args d outdt st) = now st"
  by (simp add: output_step_def)

lemma movie_step_now: "now (movie_step d mdt st) = now st"
  by (simp add: movie_step_def)

lemma callback_step_now: "now (callback_step args d cdt st) = now st"
  by (simp add: callback_step_def)

lemma input_step_now: "now (input_step env d endt st) = now st"
  by (simp add: input_step_def)

lemma loop_body_now:
  "now (loop_body env args d endt outdt mdt cdt once st) =
     (if 0 < d
      then py_min (next_prelease st)
             [next_input st, next_output st, next_movie st, next_callback st, Fin endt]
      else py_max (next_prelease st)
             [next_input st, next_output st, next_movie st, next_callback st, Fin endt])"
  unfolding loop_body_def
  by (simp only: input_step_now callback_step_now movie_step_now output_step_now
        release_step_now kernel_step_now)

lemma initial_calls: "kernel_calls (events (initial env p args)) = 0"
  by (simp add: initial_def Let_def kernel_calls_def split: option.splits)

lemma single_shot_run:
  assumes ok: "rejected p args = None" and once: "execute_once env p args"
  shows "\<exists>st. execute env p args = Some (Inr st) \<and> kernel_calls (events st) = 1 \<and>
           now st =
             py_max (first_prelease p (start_time p args) 0)
               [compute_time_chunk env (Fin (start_time p args)) 0,
                xsub (Fin (start_time p args)) (output_dt args),
                xsub (Fin (start_time p args)) (movie_dt args),
                xsub (Fin (start_time p args)) (callback_dt p args),
                Fin (start_time p args)]"
proof -
  have d: "dt_used env p args = 0" using once by (simp add: dt_used_def)
  have e: "endtime_used env p args = start_time p args"
    using once by (simp add: endtime_used_def)
  let ?body = "loop_body env args 0 (start_time p args) (output_dt args) (movie_dt args)
                 (callback_dt p args) True (initial env p args)"
  let ?st = "?body\<lparr>events := events ?body @
               (if output_file args \<noteq> None then [Write (now ?body)] else [])\<rparr>"
  have run: "execute env p args = Some (Inr ?st)"
    using ok once by (simp add: execute_def d e exec_loop_once)
  have calls: "kernel_calls (events ?st) = 1"
    by (simp add: kernel_calls_append loop_body_kernel_calls initial_calls)
       (simp add: kernel_calls_def)
  have t: "now ?st =
             py_max (first_prelease p (start_time p args) 0)
               [compute_time_chunk env (Fin (start_time p args)) 0,
                xsub (Fin (start_time p args)) (output_dt args),
                xsub (Fin (start_time p args)) (movie_dt args),
                xsub (Fin (start_time p args)) (callback_dt p args),
                Fin (start_time p args)]"
    by (simp add: loop_body_now) (simp add: initial_def Let_def d)
  from run calls t show ?thesis by blast
qed

lemma py_max_append: "py_max r (xs @ ys) = py_max (py_max r xs) ys"
  by (induction xs arbitrary: r) simp_all

lemma py_max_bounded:
  assumes "at_most s r" and "\<forall>x \<in> set xs. \<not> xless (Fin s) x"
  shows "at_most s (py_max r xs)"
  using assms
proof (induction xs arbitrary: r)
  case Nil
  then show ?case by simp
next
  case (Cons x xs)
  have "at_most s (if xless r x then x else r)"
    using Cons.prems by (cases r; cases x) auto
  with Cons show ?case by simp
qed

lemma py_max_reaches:
  assumes "at_most s r" and "\<forall>x \<in> set xs. \<not> xless (Fin s) x"
  shows "py_max r (xs @ [Fin s]) = Fin s"
proof -
  have "at_most s (py_max r xs)" using assms by (rule py_max_bounded)
  then show ?thesis
    by (cases "py_max r xs") (auto simp add: py_max_append)
qed

lemma py_min_nonneg:
  assumes "nonneg r" and "\<forall>x \<in> set xs. nonneg x"
  shows "nonneg (py_min r xs)"
  using assms by (induction xs arbitrary: r) simp_all

lemma xsub_nonneg: "nonneg x \<Longrightarrow> \<not> xless (Fin s) (xsub (Fin s) x)"
  by (cases x) (auto simp add: nonneg_def xsub_def)

lemma output_dt_nonneg: "rejected p args = None \<Longrightarrow> nonneg (output_dt args)"
  by (simp add: rejected_def nonneg_def split: if_splits)

lemma movie_dt_nonneg: "rejected p args = None \<Longrightarrow> nonneg (movie_dt args)"
  by (auto simp add: rejected_def nonneg_def movie_dt_def split: if_splits option.splits)

lemma callback_dt_nonneg:
  assumes "rejected p args = None" and "stays env p args"
  shows "nonneg (callback_dt p args)"
proof (cases "callbackdt args")
  case None
  have "nonneg (py_min PInf ([movie_dt args, output_dt args] @
          (case repeatdt p of None \<Rightarrow> [] | Some r \<Rightarrow> [Fin r])))"
  proof (rule py_min_nonneg)
    show "nonneg PInf" by (simp add: nonneg_def)
    show "\<forall>x \<in> set ([movie_dt args, output_dt args] @
            (case repeatdt p of None \<Rightarrow> [] | Some r \<Rightarrow> [Fin r])). nonneg x"
      using assms(2) movie_dt_nonneg [OF assms(1)] output_dt_nonneg [OF assms(1)]
      by (auto simp add: stays_def nonneg_def split: option.splits)
  qed
  with None show ?thesis by (simp add: callback_dt_def)
next
  case (Some c)
  with assms(2) show ?thesis by (auto simp add: callback_dt_def stays_def nonneg_def)
qed

lemma first_prelease_at_most:
  assumes "stays env p args"
  shows "at_most (start_time p args) (first_prelease p (start_time p args) 0)"
  using assms
  by (auto simp add: stays_def first_prelease_def Let_def split: option.splits)

lemma single_shot_time_kept:
  assumes ok: "rejected p args = None" and once: "execute_once env p args"
    and stays: "stays env p args"
  shows "\<exists>st. execute env p args = Some (Inr st) \<and> kernel_calls (events st) = 1 \<and>
           now st = Fin (start_time p args)"
proof -
  let ?s = "start_time p args"
  let ?xs = "[compute_time_chunk env (Fin ?s) 0, xsub (Fin ?s) (output_dt args),
              xsub (Fin ?s) (movie_dt args), xsub (Fin ?s) (callback_dt p args)]"
  have inp: "\<not> xless (Fin ?s) (compute_time_chunk env (Fin ?s) 0)"
    using stays by (simp add: stays_def)
  have "\<forall>x \<in> set ?xs. \<not> xless (Fin ?s) x"
    using inp xsub_nonneg [OF output_dt_nonneg [OF ok]] xsub_nonneg [OF movie_dt_nonneg [OF ok]]
      xsub_nonneg [OF callback_dt_nonneg [OF ok stays]]
    by simp
  with first_prelease_at_most [OF stays]
  have "py_max (first_prelease p ?s 0) (?xs @ [Fin ?s]) = Fin ?s"
    by (rule py_max_reaches)
  then have m: "py_max (first_prelease p ?s 0)
                 [compute_time_chunk env (Fin ?s) 0, xsub (Fin ?s) (output_dt args),
                  xsub (Fin ?s) (movie_dt args), xsub (Fin ?s) (callback_dt p args), Fin ?s] =
                Fin ?s"
    by simp
  from single_shot_run [OF ok once] obtain st where
    "execute env p args = Some (Inr st)" and "kernel_calls (events st) = 1" and
    "now st = py_max (first_prelease p ?s 0)
                 [compute_time_chunk env (Fin ?s) 0, xsub (Fin ?s) (output_dt args),
                  xsub (Fin ?s) (movie_dt args), xsub (Fin ?s) (callback_dt p args), Fin ?s]"
    by blast
  with m show ?thesis by simp
qed

lemma late_release_store:
  "store late_release =
     \<lparr>plist = [[timed 10 0], [timed 3 1]],
      pid_mapping_bounds = [(0, 0, 1), (1, 1, 1)], nlist_limit = 4096\<rparr>"
  by (simp add: late_release_def pset_add_def ParticleSet_single timed_def int32_max_def
        int32_min_def)

lemma start_time_late_release: "start_time late_release zero_dt = 3"
  by (simp add: start_time_def late_release_store zero_dt_def timed_def)

lemma zero_dt_fields:
  "endtime zero_dt = None" "runtime zero_dt = None" "dt zero_dt = 0" "moviedt zero_dt = None"
  "output_file zero_dt = None" "callbackdt zero_dt = None" "callbacks zero_dt = False"
  by (simp_all add: zero_dt_def)

lemma late_release_fields:
  "repeatdt late_release = Some 5" "repeat_starttime late_release = Some (Some 10)"
  by (simp_all add: late_release_def)

lemma still_fields:
  "compute_time_chunk still = (\<lambda>t d. MInf)" "kernel_execute still = (\<lambda>s t d once. s)"
  "released still (Fin x) = [timed x 2]"
  by (simp_all add: still_def)

lemma py_max_at_least: "at_least s r \<Longrightarrow> at_least s (py_max r xs)"
proof (induction xs arbitrary: r)
  case Nil
  then show ?case by simp
next
  case (Cons x xs)
  have "at_least s (if xless r x then x else r)"
    using Cons.prems by (cases r; cases x) auto
  then show ?case by (simp add: Cons.IH)
qed

lemma late_release_accepted: "rejected late_release zero_dt = None"
  by (simp add: rejected_def zero_dt_fields late_release_fields output_dt_def
        late_release_store)

lemma late_release_any_collaborators:
  "\<exists>st. execute env late_release zero_dt = Some (Inr st) \<and> kernel_calls (events st) = 1 \<and>
     at_least 10 (now st) \<and> start_time late_release zero_dt = 3"
proof -
  have once: "execute_once env late_release zero_dt"
    by (simp add: execute_once_def zero_dt_fields)
  have first: "first_prelease late_release 3 0 = Fin 10"
    by (simp add: first_prelease_def late_release_fields)
  from single_shot_run [OF late_release_accepted once] obtain st where
    run: "execute env late_release zero_dt = Some (Inr st)" and
    calls: "kernel_calls (events st) = 1" and
    t: "now st = py_max (Fin 10)
          [compute_time_chunk env (Fin 3) 0, xsub (Fin 3) (output_dt zero_dt),
           xsub (Fin 3) (movie_dt zero_dt), xsub (Fin 3) (callback_dt late_release zero_dt),
           Fin 3]"
    unfolding start_time_late_release first by blast
  have "at_least 10 (now st)"
    unfolding t by (rule py_max_at_least) simp
  with run calls start_time_late_release show ?thesis by blast
qed

lemma two_at_three_store:
  "store two_at_three =
     \<lparr>plist = [[timed 3 0, timed 3 1]], pid_mapping_bounds = [(0, 1, 2)],
      nlist_limit = 4096\<rparr>"
  by (simp add: two_at_three_def ParticleSet_single timed_def int32_max_def int32_min_def)

lemma two_at_three_kept:
  "start_time two_at_three zero_dt = 3 \<and>
   (\<exists>st. execute still two_at_three zero_dt = Some (Inr st) \<and>
      kernel_calls (events st) = 1 \<and> now st = Fin 3)"
proof -
  have s: "start_time two_at_three zero_dt = 3"
    by (simp add: start_time_def two_at_three_store zero_dt_fields timed_def)
  have ok: "rejected two_at_three zero_dt = None"
    by (simp add: rejected_def zero_dt_fields output_dt_def two_at_three_store)
       (simp add: two_at_three_def)
  have once: "execute_once still two_at_three zero_dt"
    by (simp add: execute_once_def zero_dt_fields)
  have "stays still two_at_three zero_dt"
    by (simp add: stays_def zero_dt_fields still_fields) (simp add: two_at_three_def)
  from single_shot_time_kept [OF ok once this] s show ?thesis by simp
qed

text \<open>
  Claim C5, evaluated. The claim: with \<open>dt == 0\<close>, \<open>runtime == 0\<close> or an \<open>endtime\<close> within
  the tolerance of the start time, the kernel is invoked exactly once, the loop ends after
  that pass, and the time of the scheduler is the start time when the loop exits. The
  first two hold for every call that reaches the loop (\<open>single_shot_run\<close>), and so does
  the third when no release is scheduled after the start time, the field set asks for no
  later input and \<open>callbackdt\<close> is not negative (\<open>single_shot_time_kept\<close>). But the pass
  takes \<^verbatim>\<open>time = max(next_prelease, ..., endtime)\<close>, and with \<open>dt == 0\<close> the first
  \<open>next_prelease\<close> is \<open>repeat_starttime\<close>: for a set released at time 10 with
  \<open>repeatdt = 5\<close>, to which a particle at time 3 was added, \<open>execute(dt=0)\<close> starts at 3,
  calls the kernel once with \<open>endtime = 10\<close>, releases a new particle, and leaves the loop
  with the time at 10.
\<close>

theorem execute_zero_dt_moves_time:
  "start_time late_release zero_dt = 3 \<and>
   map_option (map_sum id (\<lambda>st. (now st, events st, map (map pid) (plist (store (pop_now st))))))
     (execute still late_release zero_dt) =
   Some (Inr (Fin 10,
     [Compute_time_chunk (Fin 3) 0, Kernel_execute (Fin 10) 0 True, Release (Fin 10),
      Compute_time_chunk (Fin 10) 0],
     [[0], [1], [2]]))"
proof -
  have s: "start_time late_release zero_dt = 3"
    by (simp add: start_time_def late_release_store zero_dt_fields timed_def)
  have r: "ParticleSet [timed 10 2] =
           \<lparr>plist = [[timed 10 2]], pid_mapping_bounds = [(2, 2, 1)], nlist_limit = 4096\<rparr>"
    by (simp add: ParticleSet_single timed_def int32_max_def int32_min_def)
  have once: "execute_once still late_release zero_dt"
    by (simp add: execute_once_def zero_dt_fields)
  have run: "execute still late_release zero_dt =
        Some (Inr (loop_body still zero_dt 0 3 PInf PInf (Fin 5) True
                     (initial still late_release zero_dt)))"
    by (simp add: execute_def rejected_def output_dt_def movie_dt_def callback_dt_def
          once dt_used_def endtime_used_def s exec_loop_once late_release_store
          zero_dt_fields late_release_fields)
  have init: "initial still late_release zero_dt =
      \<lparr>pop_now = late_release\<lparr>store := set_dt 0 (store late_release)\<rparr>, now = Fin 3,
       next_prelease = Fin 10, next_input = MInf, next_output = MInf, next_movie = MInf,
       next_callback = Fin (- 2), events = [Compute_time_chunk (Fin 3) 0]\<rparr>"
    by (simp add: initial_def s Let_def dt_used_def once first_prelease_def
          output_dt_def movie_dt_def callback_dt_def xsub_def still_fields zero_dt_fields
          late_release_fields)
  define st1 where "st1 =
      \<lparr>pop_now = late_release\<lparr>store := set_dt 0 (store late_release)\<rparr>, now = Fin 10,
       next_prelease = Fin 10, next_input = MInf, next_output = MInf, next_movie = MInf,
       next_callback = Fin (- 2),
       events = [Compute_time_chunk (Fin 3) 0, Kernel_execute (Fin 10) 0 True]\<rparr>"
  define st2 where "st2 =
      \<lparr>pop_now = late_release\<lparr>store :=
         pset_add (set_dt 0 (store late_release)) (set_dt 0 (ParticleSet [timed 10 2]))\<rparr>,
       now = Fin 10, next_prelease = Fin 10, next_input = MInf, next_output = MInf,
       next_movie = MInf, next_callback = Fin (- 2),
       events = [Compute_time_chunk (Fin 3) 0, Kernel_execute (Fin 10) 0 True,
                 Release (Fin 10)]\<rparr>"
  have k: "kernel_step still 0 3 True (initial still late_release zero_dt) = st1"
    by (simp add: init kernel_step_def Let_def still_fields st1_def)
  have rel: "release_step still 0 st1 = st2"
    by (simp add: release_step_def st1_def st2_def tol_def still_fields late_release_fields)
  have out: "output_step zero_dt 0 PInf st2 = st2"
    by (simp add: output_step_def st2_def)
  have mov: "movie_step 0 PInf st2 = st2"
    by (simp add: movie_step_def st2_def)
  have cb: "callback_step zero_dt 0 (Fin 5) st2 = st2"
    by (simp add: callback_step_def st2_def tol_def)
  have inp: "input_step still 0 3 st2 =
               st2\<lparr>next_input := MInf,
                   events := events st2 @ [Compute_time_chunk (Fin 10) 0]\<rparr>"
    by (simp add: input_step_def st2_def still_fields)
  have body: "loop_body still zero_dt 0 3 PInf PInf (Fin 5) True
                (initial still late_release zero_dt) =
              st2\<lparr>next_input := MInf,
                  events := events st2 @ [Compute_time_chunk (Fin 10) 0]\<rparr>"
    by (simp only: loop_body_def k rel out mov cb inp)
  have pids: "map (map pid) (plist (pset_add (set_dt 0 (store late_release))
                (set_dt 0 (ParticleSet [timed 10 2])))) = [[0], [1], [2]]"
    by (simp add: late_release_store r pset_add_def set_dt_def) (simp add: timed_def)
  show ?thesis
    by (simp add: s run body zero_dt_fields) (simp add: st2_def pids)
qed

end
